theory Spec2Isabelle
  imports Main "HOL-Library.Word"
begin

section \<open>The syntax tree the pass reads\<close>

text \<open>
  The expression detector of clang\_delta (ExpressionDetector.cpp) walks a typed C syntax
  tree and picks the N-th expression that is safe to capture in a temporary. The tree is
  produced by the front end; the pass only queries it. Each node carries the answers to
  the queries the pass makes: its identity (the pointer value, here a number), its
  statement class together with the payload of that class, its type, the front end's
  side-effect verdict, whether it lies in an included file, its begin location and the
  two renderings the rewriter asks for.
\<close>

datatype UnaryOperatorKind =
    UO_PostInc | UO_PostDec | UO_PreInc | UO_PreDec | UO_AddrOf | UO_Deref
  | UO_Plus | UO_Minus | UO_Not | UO_LNot | UO_Real | UO_Imag | UO_Extension

datatype BinaryOperatorKind =
    BO_Mul | BO_Div | BO_Rem | BO_Add | BO_Sub | BO_Shl | BO_Shr
  | BO_LT | BO_GT | BO_LE | BO_GE | BO_EQ | BO_NE
  | BO_And | BO_Xor | BO_Or | BO_LAnd | BO_LOr
  | BO_Assign | BO_MulAssign | BO_DivAssign | BO_RemAssign | BO_AddAssign
  | BO_SubAssign | BO_ShlAssign | BO_ShrAssign | BO_AndAssign | BO_XorAssign
  | BO_OrAssign | BO_Comma

fun isIncrementDecrementOp :: "UnaryOperatorKind \<Rightarrow> bool" where
  "isIncrementDecrementOp UO_PostInc = True"
| "isIncrementDecrementOp UO_PostDec = True"
| "isIncrementDecrementOp UO_PreInc = True"
| "isIncrementDecrementOp UO_PreDec = True"
| "isIncrementDecrementOp _ = False"

fun isAssignmentOp :: "BinaryOperatorKind \<Rightarrow> bool" where
  "isAssignmentOp BO_Assign = True"
| "isAssignmentOp BO_MulAssign = True"
| "isAssignmentOp BO_DivAssign = True"
| "isAssignmentOp BO_RemAssign = True"
| "isAssignmentOp BO_AddAssign = True"
| "isAssignmentOp BO_SubAssign = True"
| "isAssignmentOp BO_ShlAssign = True"
| "isAssignmentOp BO_ShrAssign = True"
| "isAssignmentOp BO_AndAssign = True"
| "isAssignmentOp BO_XorAssign = True"
| "isAssignmentOp BO_OrAssign = True"
| "isAssignmentOp _ = False"

text \<open>The builtin types of C, in the order of the front end's enumeration.\<close>

datatype BuiltinKind =
    BT_Void
  | BT_Bool | BT_Char_U | BT_UChar | BT_WChar_U | BT_Char8 | BT_Char16 | BT_Char32
  | BT_UShort | BT_UInt | BT_ULong | BT_ULongLong | BT_UInt128
  | BT_Char_S | BT_SChar | BT_WChar_S | BT_Short | BT_Int | BT_Long | BT_LongLong
  | BT_Int128
  | BT_Half | BT_Float | BT_Double | BT_LongDouble | BT_Float16 | BT_BFloat16
  | BT_Float128 | BT_Ibm128

text \<open>
  A type is a builtin, an enumeration (complete or not), a bit-precise integer, a
  complex type over an element type, a typedef of another type (sugar over it), or
  something else (pointer, record, array, function).
\<close>

datatype CType =
    BuiltinType BuiltinKind
  | EnumType bool
  | BitIntType
  | ComplexType CType
  | TypedefType CType
  | OtherType

fun getUnqualifiedDesugaredType :: "CType \<Rightarrow> CType" where
  "getUnqualifiedDesugaredType (TypedefType t) = getUnqualifiedDesugaredType t"
| "getUnqualifiedDesugaredType t = t"

fun isIntegerBuiltin :: "BuiltinKind \<Rightarrow> bool" where
  "isIntegerBuiltin BT_Void = False"
| "isIntegerBuiltin BT_Half = False"
| "isIntegerBuiltin BT_Float = False"
| "isIntegerBuiltin BT_Double = False"
| "isIntegerBuiltin BT_LongDouble = False"
| "isIntegerBuiltin BT_Float16 = False"
| "isIntegerBuiltin BT_BFloat16 = False"
| "isIntegerBuiltin BT_Float128 = False"
| "isIntegerBuiltin BT_Ibm128 = False"
| "isIntegerBuiltin _ = True"

fun isFloatingBuiltin :: "BuiltinKind \<Rightarrow> bool" where
  "isFloatingBuiltin BT_Half = True"
| "isFloatingBuiltin BT_Float = True"
| "isFloatingBuiltin BT_Double = True"
| "isFloatingBuiltin BT_LongDouble = True"
| "isFloatingBuiltin BT_Float16 = True"
| "isFloatingBuiltin BT_BFloat16 = True"
| "isFloatingBuiltin BT_Float128 = True"
| "isFloatingBuiltin BT_Ibm128 = True"
| "isFloatingBuiltin _ = False"

text \<open>
  The front end's \<open>Type::isIntegerType\<close> for a C program: a builtin between Bool and
  Int128, a complete enumeration, or a bit-precise integer. \<open>Type::isFloatingType\<close>: a
  builtin between Half and Ibm128, or a complex type over such an element. Both look
  through typedefs (they ask the canonical type).
\<close>

fun isIntegerType :: "CType \<Rightarrow> bool" where
  "isIntegerType (BuiltinType k) = isIntegerBuiltin k"
| "isIntegerType (EnumType complete) = complete"
| "isIntegerType BitIntType = True"
| "isIntegerType (ComplexType t) = False"
| "isIntegerType (TypedefType t) = isIntegerType t"
| "isIntegerType OtherType = False"

fun isFloatingType :: "CType \<Rightarrow> bool" where
  "isFloatingType (BuiltinType k) = isFloatingBuiltin k"
| "isFloatingType (ComplexType t) = isFloatingType t"
| "isFloatingType (TypedefType t) = isFloatingType t"
| "isFloatingType _ = False"

text \<open>
  A declaration a node refers to: its identity, whether it is a variable, a function,
  some other named declaration or an unnamed one, and its name.
\<close>

datatype DeclKind = VarDeclKind | FunctionDeclKind | OtherNamedDeclKind | UnnamedDeclKind

record Decl =
  declId :: nat
  declKind :: DeclKind
  declName :: string

text \<open>
  The statement classes the pass tells apart, each with the payload the pass reads from
  it: an operator's opcode, the declaration a name refers to, the member a member access
  names, a call's direct callee (if any), a cast's written type, a literal's value (an
  integer literal its bit width and value, a floating literal its format and bit
  pattern), the declarations of a declaration statement (their initialisers are the
  node's children, in the same order). A generic selection (\<open>_Generic\<close>) carries the
  index of its result among its associations (its children are the controlling
  expression and then the associations), \<open>__builtin_choose_expr\<close> whether its condition
  is true (its children are the condition and the two alternatives), and a constant
  expression wrapper (a full expression) has the wrapped expression as its child.
\<close>

datatype Kind =
    ArraySubscriptExpr
  | BinaryOperator BinaryOperatorKind
  | CompoundAssignOperator BinaryOperatorKind
  | CallExpr "Decl option"
  | DeclRefExpr Decl
  | MemberExpr nat
  | UnaryOperator UnaryOperatorKind
  | CStyleCastExpr CType
  | ImplicitCastExpr
  | ParenExpr
  | CharacterLiteral nat
  | StringLiteral string
  | IntegerLiteral nat nat
  | FloatingLiteral nat nat
  | ConditionalOperator
  | GenericSelectionExpr nat
  | ChooseExpr bool
  | ConstantExpr
  | OtherExpr
  | ForStmt | DoStmt | WhileStmt | IfStmt
  | DeclStmt "Decl list"
  | CompoundStmt | ReturnStmt | OtherStmt

datatype StmtClass =
    ArraySubscriptExprClass | BinaryOperatorClass | CompoundAssignOperatorClass
  | CallExprClass | DeclRefExprClass | MemberExprClass | UnaryOperatorClass
  | CStyleCastExprClass | ImplicitCastExprClass | ParenExprClass
  | CharacterLiteralClass | StringLiteralClass | IntegerLiteralClass
  | FloatingLiteralClass | ConditionalOperatorClass | GenericSelectionExprClass
  | ChooseExprClass | ConstantExprClass | OtherExprClass
  | ForStmtClass | DoStmtClass | WhileStmtClass | IfStmtClass | DeclStmtClass
  | CompoundStmtClass | ReturnStmtClass | OtherStmtClass

fun classOfKind :: "Kind \<Rightarrow> StmtClass" where
  "classOfKind ArraySubscriptExpr = ArraySubscriptExprClass"
| "classOfKind (BinaryOperator _) = BinaryOperatorClass"
| "classOfKind (CompoundAssignOperator _) = CompoundAssignOperatorClass"
| "classOfKind (CallExpr _) = CallExprClass"
| "classOfKind (DeclRefExpr _) = DeclRefExprClass"
| "classOfKind (MemberExpr _) = MemberExprClass"
| "classOfKind (UnaryOperator _) = UnaryOperatorClass"
| "classOfKind (CStyleCastExpr _) = CStyleCastExprClass"
| "classOfKind ImplicitCastExpr = ImplicitCastExprClass"
| "classOfKind ParenExpr = ParenExprClass"
| "classOfKind (CharacterLiteral _) = CharacterLiteralClass"
| "classOfKind (StringLiteral _) = StringLiteralClass"
| "classOfKind (IntegerLiteral _ _) = IntegerLiteralClass"
| "classOfKind (FloatingLiteral _ _) = FloatingLiteralClass"
| "classOfKind ConditionalOperator = ConditionalOperatorClass"
| "classOfKind (GenericSelectionExpr _) = GenericSelectionExprClass"
| "classOfKind (ChooseExpr _) = ChooseExprClass"
| "classOfKind ConstantExpr = ConstantExprClass"
| "classOfKind OtherExpr = OtherExprClass"
| "classOfKind ForStmt = ForStmtClass"
| "classOfKind DoStmt = DoStmtClass"
| "classOfKind WhileStmt = WhileStmtClass"
| "classOfKind IfStmt = IfStmtClass"
| "classOfKind (DeclStmt _) = DeclStmtClass"
| "classOfKind CompoundStmt = CompoundStmtClass"
| "classOfKind ReturnStmt = ReturnStmtClass"
| "classOfKind OtherStmt = OtherStmtClass"

fun isExprClass :: "StmtClass \<Rightarrow> bool" where
  "isExprClass ForStmtClass = False"
| "isExprClass DoStmtClass = False"
| "isExprClass WhileStmtClass = False"
| "isExprClass IfStmtClass = False"
| "isExprClass DeclStmtClass = False"
| "isExprClass CompoundStmtClass = False"
| "isExprClass ReturnStmtClass = False"
| "isExprClass OtherStmtClass = False"
| "isExprClass _ = True"

record NodeInfo =
  nodeId :: nat
  kind :: Kind
  exprType :: CType
  hasSideEffects :: bool
  inIncludedFile :: bool
  beginLoc :: nat
  exprText :: string
  typeText :: string

text \<open>
  A node, with its children in order. A child pointer may be null (a declaration without
  initialiser in a declaration statement), so a child is an optional node; a pointer
  that the code never tests for null is a node.
\<close>

datatype Stmt = Stmt NodeInfo "Stmt option list"

fun info :: "Stmt \<Rightarrow> NodeInfo" where
  "info (Stmt i ks) = i"

fun children :: "Stmt \<Rightarrow> Stmt option list" where
  "children (Stmt i ks) = ks"

definition getStmtClass :: "Stmt \<Rightarrow> StmtClass" where
  "getStmtClass S = classOfKind (kind (info S))"

text \<open>The pointer value of a node: two pointers are equal when the values are.\<close>

definition ptr :: "Stmt \<Rightarrow> nat" where
  "ptr S = nodeId (info S)"

text \<open>\<open>dyn_cast<Expr>\<close>: the node itself when it is an expression, else the null pointer.\<close>

fun dyn_cast_Expr :: "Stmt option \<Rightarrow> Stmt option" where
  "dyn_cast_Expr None = None"
| "dyn_cast_Expr (Some S) = (if isExprClass (getStmtClass S) then Some S else None)"

text \<open>The child at an index, when there is one.\<close>

definition nthChild :: "Stmt \<Rightarrow> nat \<Rightarrow> Stmt option" where
  "nthChild E n = (if n < length (children E) then children E ! n else None)"

text \<open>
  The front end's single steps for skipping wrappers, each giving the expression it
  steps to, or nothing when it leaves the node alone. \<open>IgnoreParensSingleStep\<close> steps
  through a parenthesis, an \<open>__extension__\<close>, a generic selection (to its result) and
  a \<open>__builtin_choose_expr\<close> (to the chosen alternative);
  \<open>IgnoreImplicitCastsExtraSingleStep\<close> through an implicit cast and a full
  expression; \<open>IgnoreCastsSingleStep\<close> through every cast and a full expression.
  (The steps for nodes that only a C++ program has are left out: the pass skips C++.)
\<close>

definition IgnoreParensSingleStep :: "Stmt \<Rightarrow> Stmt option" where
  "IgnoreParensSingleStep E =
     (case kind (info E) of
        ParenExpr \<Rightarrow> nthChild E 0
      | UnaryOperator opc \<Rightarrow> if opc = UO_Extension then nthChild E 0 else None
      | GenericSelectionExpr r \<Rightarrow> nthChild E (Suc r)
      | ChooseExpr c \<Rightarrow> nthChild E (if c then 1 else 2)
      | _ \<Rightarrow> None)"

definition IgnoreImplicitCastsExtraSingleStep :: "Stmt \<Rightarrow> Stmt option" where
  "IgnoreImplicitCastsExtraSingleStep E =
     (case kind (info E) of
        ImplicitCastExpr \<Rightarrow> nthChild E 0
      | ConstantExpr \<Rightarrow> nthChild E 0
      | _ \<Rightarrow> None)"

definition IgnoreCastsSingleStep :: "Stmt \<Rightarrow> Stmt option" where
  "IgnoreCastsSingleStep E =
     (case kind (info E) of
        ImplicitCastExpr \<Rightarrow> nthChild E 0
      | CStyleCastExpr t \<Rightarrow> nthChild E 0
      | ConstantExpr \<Rightarrow> nthChild E 0
      | _ \<Rightarrow> None)"

lemma size_nthChild: "nthChild E n = Some c \<Longrightarrow> size c < size E"
proof -
  assume a: "nthChild E n = Some c"
  obtain i ks where e: "E = Stmt i ks" by (cases E)
  from a e have "n < length ks" and "ks ! n = Some c"
    by (auto simp: nthChild_def split: if_splits)
  then have "Some c \<in> set ks"
    using nth_mem[of n ks] by simp
  then have "size_option size (Some c) \<le> size_list (size_option size) ks"
    by (simp add: size_list_estimation')
  then show ?thesis using e by simp
qed

lemma size_IgnoreParensSingleStep: "IgnoreParensSingleStep E = Some c \<Longrightarrow> size c < size E"
  by (auto simp: IgnoreParensSingleStep_def size_nthChild split: Kind.splits if_splits)

lemma size_IgnoreImplicitCastsExtraSingleStep:
  "IgnoreImplicitCastsExtraSingleStep E = Some c \<Longrightarrow> size c < size E"
  by (auto simp: IgnoreImplicitCastsExtraSingleStep_def size_nthChild split: Kind.splits)

lemma size_IgnoreCastsSingleStep: "IgnoreCastsSingleStep E = Some c \<Longrightarrow> size c < size E"
  by (auto simp: IgnoreCastsSingleStep_def size_nthChild split: Kind.splits)

text \<open>
  \<open>Expr::IgnoreParenImpCasts\<close> and \<open>Expr::IgnoreParenCasts\<close> apply their two steps
  until neither moves: they descend to the first node that neither step skips.
\<close>

function IgnoreParenImpCasts :: "Stmt \<Rightarrow> Stmt" where
  "IgnoreParenImpCasts E =
     (case IgnoreParensSingleStep E of
        Some c \<Rightarrow> IgnoreParenImpCasts c
      | None \<Rightarrow>
          (case IgnoreImplicitCastsExtraSingleStep E of
             Some c \<Rightarrow> IgnoreParenImpCasts c
           | None \<Rightarrow> E))"
  by pat_completeness auto
termination
  by (relation "measure size")
     (auto simp: size_IgnoreParensSingleStep size_IgnoreImplicitCastsExtraSingleStep)

function IgnoreParenCasts :: "Stmt \<Rightarrow> Stmt" where
  "IgnoreParenCasts E =
     (case IgnoreParensSingleStep E of
        Some c \<Rightarrow> IgnoreParenCasts c
      | None \<Rightarrow>
          (case IgnoreCastsSingleStep E of
             Some c \<Rightarrow> IgnoreParenCasts c
           | None \<Rightarrow> E))"
  by pat_completeness auto
termination
  by (relation "measure size")
     (auto simp: size_IgnoreParensSingleStep size_IgnoreCastsSingleStep)

declare IgnoreParenImpCasts.simps [simp del]
declare IgnoreParenCasts.simps [simp del]

lemma IgnoreParenImpCasts_Stmt:
  "IgnoreParenImpCasts (Stmt i ks) =
     (case IgnoreParensSingleStep (Stmt i ks) of
        Some c \<Rightarrow> IgnoreParenImpCasts c
      | None \<Rightarrow>
          (case IgnoreImplicitCastsExtraSingleStep (Stmt i ks) of
             Some c \<Rightarrow> IgnoreParenImpCasts c
           | None \<Rightarrow> Stmt i ks))"
  by (rule IgnoreParenImpCasts.simps)

lemma IgnoreParenCasts_Stmt:
  "IgnoreParenCasts (Stmt i ks) =
     (case IgnoreParensSingleStep (Stmt i ks) of
        Some c \<Rightarrow> IgnoreParenCasts c
      | None \<Rightarrow>
          (case IgnoreCastsSingleStep (Stmt i ks) of
             Some c \<Rightarrow> IgnoreParenCasts c
           | None \<Rightarrow> Stmt i ks))"
  by (rule IgnoreParenCasts.simps)

lemma IgnoreParenImpCasts_unmoved:
  "IgnoreParensSingleStep E = None \<Longrightarrow> IgnoreImplicitCastsExtraSingleStep E = None \<Longrightarrow>
   IgnoreParenImpCasts E = E"
  by (simp add: IgnoreParenImpCasts.simps[of E])

lemma IgnoreParenCasts_unmoved:
  "IgnoreParensSingleStep E = None \<Longrightarrow> IgnoreCastsSingleStep E = None \<Longrightarrow>
   IgnoreParenCasts E = E"
  by (simp add: IgnoreParenCasts.simps[of E])

definition HasSideEffects :: "Stmt \<Rightarrow> bool" where
  "HasSideEffects E = hasSideEffects (info E)"

text \<open>
  A traversal by the front end's recursive visitor reaches a node and then its children,
  left to right: the nodes of a subtree in pre-order.
\<close>

fun nodes :: "Stmt \<Rightarrow> Stmt list"
  and nodesOfChildren :: "Stmt option list \<Rightarrow> Stmt list" where
  "nodes (Stmt i ks) = Stmt i ks # nodesOfChildren ks"
| "nodesOfChildren [] = []"
| "nodesOfChildren (None # ks) = nodesOfChildren ks"
| "nodesOfChildren (Some c # ks) = nodes c @ nodesOfChildren ks"

section \<open>The structural-equality oracle\<close>

text \<open>
  The switch at the end of \<open>isIdenticalExpr\<close>, on two nodes of the same class: the
  kinds it lists compare their payload, every other kind is never identical.
\<close>

definition identicalPayload :: "Kind \<Rightarrow> Kind \<Rightarrow> bool" where
  "identicalPayload k1 k2 =
     (case k1 of
        ArraySubscriptExpr \<Rightarrow> True
      | CallExpr c1 \<Rightarrow> True
      | CStyleCastExpr t1 \<Rightarrow> (case k2 of CStyleCastExpr t2 \<Rightarrow> t1 = t2 | _ \<Rightarrow> False)
      | MemberExpr m1 \<Rightarrow> (case k2 of MemberExpr m2 \<Rightarrow> m1 = m2 | _ \<Rightarrow> False)
      | DeclRefExpr d1 \<Rightarrow> (case k2 of DeclRefExpr d2 \<Rightarrow> declId d1 = declId d2 | _ \<Rightarrow> False)
      | CompoundAssignOperator o1 \<Rightarrow>
          (case k2 of CompoundAssignOperator o2 \<Rightarrow> o1 = o2 | _ \<Rightarrow> False)
      | BinaryOperator o1 \<Rightarrow> (case k2 of BinaryOperator o2 \<Rightarrow> o1 = o2 | _ \<Rightarrow> False)
      | UnaryOperator o1 \<Rightarrow> (case k2 of UnaryOperator o2 \<Rightarrow> o1 = o2 | _ \<Rightarrow> False)
      | CharacterLiteral v1 \<Rightarrow> (case k2 of CharacterLiteral v2 \<Rightarrow> v1 = v2 | _ \<Rightarrow> False)
      | StringLiteral b1 \<Rightarrow> (case k2 of StringLiteral b2 \<Rightarrow> b1 = b2 | _ \<Rightarrow> False)
      | IntegerLiteral w1 v1 \<Rightarrow>
          (case k2 of IntegerLiteral w2 v2 \<Rightarrow> w1 = w2 \<and> v1 = v2 | _ \<Rightarrow> False)
      | FloatingLiteral s1 b1 \<Rightarrow>
          (case k2 of FloatingLiteral s2 b2 \<Rightarrow> s1 = s2 \<and> b1 = b2 | _ \<Rightarrow> False)
      | _ \<Rightarrow> False)"

lemma size_IgnoreParenImpCasts: "size (IgnoreParenImpCasts E) \<le> size E"
proof (induction E rule: IgnoreParenImpCasts.induct)
  case (1 E)
  show ?case
  proof (cases "IgnoreParensSingleStep E")
    case (Some c)
    have "size (IgnoreParenImpCasts c) \<le> size c" using "1.IH"(2)[OF Some] .
    moreover have "size c < size E" using Some by (rule size_IgnoreParensSingleStep)
    moreover have "IgnoreParenImpCasts E = IgnoreParenImpCasts c"
      using Some by (simp add: IgnoreParenImpCasts.simps[of E])
    ultimately show ?thesis by simp
  next
    case None
    show ?thesis
    proof (cases "IgnoreImplicitCastsExtraSingleStep E")
      case (Some c)
      have "size (IgnoreParenImpCasts c) \<le> size c" using "1.IH"(1)[OF None Some] .
      moreover have "size c < size E"
        using Some by (rule size_IgnoreImplicitCastsExtraSingleStep)
      moreover have "IgnoreParenImpCasts E = IgnoreParenImpCasts c"
        using None Some by (simp add: IgnoreParenImpCasts.simps[of E])
      ultimately show ?thesis by simp
    next
      case n: None
      then show ?thesis using None by (simp add: IgnoreParenImpCasts_unmoved)
    qed
  qed
qed

text \<open>
  \<open>isIdenticalExpr\<close>: null pointers are identical to each other only; otherwise both
  sides are stripped of their wrappers (\<open>IgnoreParenImpCasts\<close>), must have the same class and no
  side effects, their children must be identical pairwise (and as many), and the payload
  must agree.
\<close>

function isIdenticalExpr :: "Stmt option \<Rightarrow> Stmt option \<Rightarrow> bool"
  and identicalChildren :: "Stmt option list \<Rightarrow> Stmt option list \<Rightarrow> bool" where
  "isIdenticalExpr None None = True"
| "isIdenticalExpr None (Some E2) = False"
| "isIdenticalExpr (Some E1) None = False"
| "isIdenticalExpr (Some E1) (Some E2) =
     (case (IgnoreParenImpCasts E1, IgnoreParenImpCasts E2) of
        (Stmt i1 ks1, Stmt i2 ks2) \<Rightarrow>
          if classOfKind (kind i1) \<noteq> classOfKind (kind i2) then False
          else if hasSideEffects i1 \<or> hasSideEffects i2 then False
          else if \<not> identicalChildren ks1 ks2 then False
          else identicalPayload (kind i1) (kind i2))"
| "identicalChildren [] [] = True"
| "identicalChildren (a # as) [] = False"
| "identicalChildren [] (b # bs) = False"
| "identicalChildren (a # as) (b # bs) =
     (if \<not> isIdenticalExpr (dyn_cast_Expr a) (dyn_cast_Expr b) then False
      else identicalChildren as bs)"
  by pat_completeness auto
termination
proof (relation "measure (\<lambda>x. case x of
          Inl (E1, E2) \<Rightarrow> 2 * size_option size E1
        | Inr (as, bs) \<Rightarrow> 2 * size_list (size_option size) as + 1)", goal_cases)
  case 1
  show ?case by simp
next
  case (2 E1 E2 x y i1 ks1 i2 ks2)
  have "size (IgnoreParenImpCasts E1) \<le> size E1" by (rule size_IgnoreParenImpCasts)
  moreover have "IgnoreParenImpCasts E1 = Stmt i1 ks1" using 2 by simp
  ultimately have "size (Stmt i1 ks1) \<le> size E1" by simp
  then show ?case by simp
next
  case (3 a as b bs)
  show ?case by (cases a) (auto split: if_splits)
next
  case (4 a as b bs)
  show ?case by simp
qed

declare isIdenticalExpr.simps(4) [simp del]

section \<open>The pass session\<close>

text \<open>
  Modelled from the spec: the three name prefixes the pass reserves (capture temporaries,
  print-guard counters, check-guard counters). They are declared in ExpressionDetector.h,
  which is not among the sources; their spelling is the one the comments of
  ExpressionDetector.cpp give.
\<close>

definition TmpVarNamePrefix :: string where
  "TmpVarNamePrefix = ''__cvise_expr_tmp_''"

definition PrintedVarNamePrefix :: string where
  "PrintedVarNamePrefix = ''__cvise_printed_''"

definition CheckedVarNamePrefix :: string where
  "CheckedVarNamePrefix = ''__cvise_checked_''"

text \<open>\<open>StringRef::startswith\<close>.\<close>

definition startswith :: "string \<Rightarrow> string \<Rightarrow> bool" where
  "startswith name p = (take (length p) name = p)"

text \<open>
  A function declaration as the collection visitor sees it: identity, name, whether it
  lies in an included file, whether it is a definition, where it begins, and its body.
\<close>

record FunctionDecl =
  funcId :: nat
  funcName :: string
  funcInIncludedFile :: bool
  isThisDeclarationADefinition :: bool
  funcBeginLoc :: nat
  funcBody :: "Stmt option"

text \<open>The record \<open>HFInfo\<close>: the reporting function, its header, and where they were seen.\<close>

record HeaderFunctionInfo =
  HeaderName :: string
  FunctionName :: string
  FunctionDeclStr :: string
  HasHeader :: bool
  HasFunction :: bool
  HeaderLoc :: nat
  FunctionLoc :: nat

text \<open>
  Modelled from the spec: the status a run ends with (success, the distinguished
  max-instance condition, an internal error), declared in Transformation.h, which is not
  among the sources.
\<close>

datatype TransErrorKind = TransSuccess | TransInternalError | TransMaxInstanceError

text \<open>
  The edits the pass requests from the rewriter: an insertion at the start of the main
  file, the replacement of an expression by a text, and the combined request "put this
  text before the statement and replace the expression by this name, in parentheses or
  not".
\<close>

datatype Edit =
    InsertTextAtStartOfMainFile string
  | ReplaceExpr Stmt string
  | AddStringBeforeStmtAndReplaceExpr Stmt string Stmt string bool

text \<open>
  The fields of the pass object. Containers keyed by a pointer are maps from the
  pointer value; the code only looks keys up and never iterates over these maps. A
  vector is a list. The counter and the requested instance are C ints, modelled as
  unbounded integers (a run would need more than \<open>2^31\<close> accepted expressions to leave
  that range).
\<close>

record ExpressionDetector =
  TransformationCounter :: int
  ValidInstanceNum :: int
  QueryInstanceOnly :: bool
  TransError :: TransErrorKind
  DoReplacement :: bool
  Replacement :: string
  CheckReference :: bool
  ReferenceValue :: string
  ControlVarNamePrefix :: string
  HFInfo :: HeaderFunctionInfo
  TheFunc :: "FunctionDecl option"
  TheStmt :: "Stmt option"
  TheExpr :: "Stmt option"
  UniqueExprs :: "nat \<rightharpoonup> Stmt list"
  ProcessedExprs :: "nat \<rightharpoonup> Stmt"
  InvalidExprsInUOBO :: "nat \<rightharpoonup> nat set"
  TmpVarsInStmt :: "nat \<rightharpoonup> Decl list"
  Edits :: "Edit list"

text \<open>The casts the code uses to read a node's payload.\<close>

definition dyn_cast_UnaryOperator :: "Stmt \<Rightarrow> UnaryOperatorKind option" where
  "dyn_cast_UnaryOperator E = (case kind (info E) of UnaryOperator opc \<Rightarrow> Some opc | _ \<Rightarrow> None)"

text \<open>A compound assignment is a binary operator too (its class derives from it).\<close>

definition dyn_cast_BinaryOperator :: "Stmt \<Rightarrow> BinaryOperatorKind option" where
  "dyn_cast_BinaryOperator E =
     (case kind (info E) of
        BinaryOperator opc \<Rightarrow> Some opc
      | CompoundAssignOperator opc \<Rightarrow> Some opc
      | _ \<Rightarrow> None)"

definition dyn_cast_DeclRefExpr :: "Stmt \<Rightarrow> Decl option" where
  "dyn_cast_DeclRefExpr E = (case kind (info E) of DeclRefExpr d \<Rightarrow> Some d | _ \<Rightarrow> None)"

text \<open>The first and the second child: an operator's operand or left side, and its right side.\<close>

definition getSubExpr :: "Stmt \<Rightarrow> Stmt option" where
  "getSubExpr E = (case children E of c # _ \<Rightarrow> c | [] \<Rightarrow> None)"

definition getRHS :: "Stmt \<Rightarrow> Stmt option" where
  "getRHS E = (case children E of _ # c # _ \<Rightarrow> c | _ \<Rightarrow> None)"

subsection \<open>The two statement-local collectors\<close>

text \<open>
  \<open>LocalUOBOVisitor\<close>: at an increment, decrement or address-of the stripped operand is
  invalid, at an assignment the stripped left side.
\<close>

definition VisitUnaryOperator :: "Stmt \<Rightarrow> nat list" where
  "VisitUnaryOperator UO =
     (case dyn_cast_UnaryOperator UO of
        None \<Rightarrow> []
      | Some opc \<Rightarrow>
          if \<not> isIncrementDecrementOp opc \<and> opc \<noteq> UO_AddrOf then []
          else (case getSubExpr UO of None \<Rightarrow> [] | Some E \<Rightarrow> [ptr (IgnoreParenImpCasts E)]))"

definition VisitBinaryOperator :: "Stmt \<Rightarrow> nat list" where
  "VisitBinaryOperator BO =
     (case dyn_cast_BinaryOperator BO of
        None \<Rightarrow> []
      | Some opc \<Rightarrow>
          if \<not> isAssignmentOp opc then []
          else (case getSubExpr BO of None \<Rightarrow> [] | Some E \<Rightarrow> [ptr (IgnoreParenImpCasts E)]))"

definition LocalUOBOVisitor :: "Stmt \<Rightarrow> nat set" where
  "LocalUOBOVisitor S =
     set (concat (map (\<lambda>N. VisitUnaryOperator N @ VisitBinaryOperator N) (nodes S)))"

text \<open>
  \<open>LocalTmpVarCollector\<close>: the variables named with the prefix that the statement
  refers to, one entry per reference, in traversal order.
\<close>

definition VisitDeclRefExpr :: "string \<Rightarrow> Stmt \<Rightarrow> Decl list" where
  "VisitDeclRefExpr Prefix DRE =
     (case dyn_cast_DeclRefExpr DRE of
        None \<Rightarrow> []
      | Some VD \<Rightarrow>
          if declKind VD \<noteq> VarDeclKind then []
          else if startswith (declName VD) Prefix then [VD] else [])"

definition LocalTmpVarCollector :: "string \<Rightarrow> Stmt \<Rightarrow> Decl list" where
  "LocalTmpVarCollector Prefix S = concat (map (VisitDeclRefExpr Prefix) (nodes S))"

subsection \<open>The temporary registry\<close>

text \<open>
  \<open>addOneTempVar\<close>, on a declaration and its initialiser: a variable named with the
  capture prefix and initialised is registered with its stripped initialiser.
\<close>

definition addOneTempVar :: "Decl \<times> Stmt option \<Rightarrow> ExpressionDetector \<Rightarrow> ExpressionDetector" where
  "addOneTempVar VDI D =
     (case VDI of (VD, Init) \<Rightarrow>
        if declKind VD \<noteq> VarDeclKind then D
        else if \<not> startswith (declName VD) TmpVarNamePrefix then D
        else (case Init of
                None \<Rightarrow> D
              | Some E \<Rightarrow> D\<lparr>ProcessedExprs := (ProcessedExprs D)(declId VD \<mapsto> IgnoreParenImpCasts E)\<rparr>))"

text \<open>\<open>ExprDetectorTempVarVisitor::VisitDeclStmt\<close>: every declaration of the statement.\<close>

definition VisitDeclStmt :: "Stmt \<Rightarrow> ExpressionDetector \<Rightarrow> ExpressionDetector" where
  "VisitDeclStmt DS D =
     (case kind (info DS) of
        DeclStmt decls \<Rightarrow> fold addOneTempVar (zip decls (children DS)) D
      | _ \<Rightarrow> D)"

definition refToTmpVar :: "Decl \<Rightarrow> bool" where
  "refToTmpVar ND =
     (startswith (declName ND) TmpVarNamePrefix \<or>
      startswith (declName ND) PrintedVarNamePrefix \<or>
      startswith (declName ND) CheckedVarNamePrefix)"

definition hasIdenticalExpr :: "ExpressionDetector \<Rightarrow> Decl list \<Rightarrow> Stmt \<Rightarrow> bool" where
  "hasIdenticalExpr D TmpVars E =
     list_ex (\<lambda>V. case ProcessedExprs D (declId V) of
                    None \<Rightarrow> False
                  | Some I \<Rightarrow> isIdenticalExpr (Some I) (Some E)) TmpVars"

subsection \<open>The validity filter\<close>

text \<open>The rules of \<open>isValidExpr\<close> that read no cache, in the order of the source.\<close>

definition isLoopStmt :: "Stmt \<Rightarrow> bool" where
  "isLoopStmt S =
     (getStmtClass S = ForStmtClass \<or> getStmtClass S = DoStmtClass \<or>
      getStmtClass S = WhileStmtClass)"

definition isSelfReplacement :: "Stmt \<Rightarrow> Stmt \<Rightarrow> bool" where
  "isSelfReplacement S E =
     (case dyn_cast_Expr (Some S) of
        None \<Rightarrow> False
      | Some SE \<Rightarrow> ptr (IgnoreParenCasts SE) = ptr E)"

text \<open>
  A declaration statement hosts a candidate only when it declares one named thing that
  is not one of the pass's own variables.
\<close>

definition isBadDeclStmt :: "Stmt \<Rightarrow> bool" where
  "isBadDeclStmt S =
     (case kind (info S) of
        DeclStmt decls \<Rightarrow>
          (case decls of
             [ND] \<Rightarrow> declKind ND = UnnamedDeclKind \<or> refToTmpVar ND
           | _ \<Rightarrow> True)
      | _ \<Rightarrow> False)"

definition isNotOfControlVar :: "Stmt \<Rightarrow> bool" where
  "isNotOfControlVar E =
     (case dyn_cast_UnaryOperator E of
        None \<Rightarrow> False
      | Some opc \<Rightarrow>
          if opc = UO_LNot then
            (case getSubExpr E of
               None \<Rightarrow> False
             | Some Sub \<Rightarrow>
                 (case dyn_cast_DeclRefExpr (IgnoreParenCasts Sub) of
                    None \<Rightarrow> False
                  | Some SubE \<Rightarrow>
                      startswith (declName SubE) PrintedVarNamePrefix \<or>
                      startswith (declName SubE) CheckedVarNamePrefix))
          else False)"

definition isTmpVarCheck :: "Stmt \<Rightarrow> Stmt \<Rightarrow> bool" where
  "isTmpVarCheck S E =
     (case dyn_cast_BinaryOperator E of
        None \<Rightarrow> False
      | Some opc \<Rightarrow>
          if opc = BO_NE then
            (case (getSubExpr E, getRHS E) of
               (Some L, Some R) \<Rightarrow>
                 (let Lhs = IgnoreParenCasts L;
                      Rhs = IgnoreParenCasts R;
                      IsLit = (getStmtClass Rhs = IntegerLiteralClass \<or>
                               getStmtClass Rhs = FloatingLiteralClass)
                  in case dyn_cast_DeclRefExpr Lhs of
                       None \<Rightarrow> False
                     | Some DRE \<Rightarrow>
                         IsLit \<and> startswith (declName DRE) TmpVarNamePrefix \<and>
                         getStmtClass S = IfStmtClass)
             | _ \<Rightarrow> False)
          else False)"

text \<open>
  A name is rejected when it names one of the pass's variables, or when the statement is
  a call whose direct callee is called \<open>printf\<close>.
\<close>

definition isBadDeclRef :: "Stmt \<Rightarrow> Stmt \<Rightarrow> bool" where
  "isBadDeclRef S E =
     (case dyn_cast_DeclRefExpr E of
        None \<Rightarrow> False
      | Some DRE \<Rightarrow>
          if refToTmpVar DRE then True
          else (case kind (info S) of
                  CallExpr (Some FD) \<Rightarrow> declName FD = ''printf''
                | _ \<Rightarrow> False))"

text \<open>
  The last stage: the temporaries the statement refers to (collected once per statement)
  must not be initialised with an expression identical to the candidate.
\<close>

definition checkTmpVars :: "Stmt \<Rightarrow> Stmt \<Rightarrow> ExpressionDetector \<Rightarrow> bool \<times> ExpressionDetector" where
  "checkTmpVars S E D =
     (case TmpVarsInStmt D (ptr S) of
        None \<Rightarrow>
          (let TmpVars = LocalTmpVarCollector TmpVarNamePrefix S;
               D' = D\<lparr>TmpVarsInStmt := (TmpVarsInStmt D)(ptr S \<mapsto> TmpVars)\<rparr>
           in if hasIdenticalExpr D' TmpVars E then (False, D') else (True, D'))
      | Some TmpVars \<Rightarrow>
          if hasIdenticalExpr D TmpVars E then (False, D) else (True, D))"

text \<open>
  The stage before it: the statement's vector of unique expressions (created empty when
  the statement has none) must hold nothing identical to the candidate; the candidate is
  then pushed, before the temporaries are looked at.
\<close>

definition checkUnique :: "Stmt \<Rightarrow> Stmt \<Rightarrow> ExpressionDetector \<Rightarrow> bool \<times> ExpressionDetector" where
  "checkUnique S E D =
     (let Vec = (case UniqueExprs D (ptr S) of None \<Rightarrow> [] | Some V \<Rightarrow> V)
      in if list_ex (\<lambda>I. isIdenticalExpr (Some I) (Some E)) Vec
         then (False, D\<lparr>UniqueExprs := (UniqueExprs D)(ptr S \<mapsto> Vec)\<rparr>)
         else checkTmpVars S E (D\<lparr>UniqueExprs := (UniqueExprs D)(ptr S \<mapsto> Vec @ [E])\<rparr>))"

text \<open>
  And the first cached stage: the statement's invalid expressions (collected once per
  statement) must not contain the candidate.
\<close>

definition checkInvalid :: "Stmt \<Rightarrow> Stmt \<Rightarrow> ExpressionDetector \<Rightarrow> bool \<times> ExpressionDetector" where
  "checkInvalid S E D =
     (case InvalidExprsInUOBO D (ptr S) of
        None \<Rightarrow>
          (let InvalidExprs = LocalUOBOVisitor S;
               D' = D\<lparr>InvalidExprsInUOBO := (InvalidExprsInUOBO D)(ptr S \<mapsto> InvalidExprs)\<rparr>
           in if ptr E \<in> InvalidExprs then (False, D') else checkUnique S E D')
      | Some InvalidExprs \<Rightarrow>
          if ptr E \<in> InvalidExprs then (False, D) else checkUnique S E D)"

definition isValidExpr :: "Stmt \<Rightarrow> Stmt \<Rightarrow> ExpressionDetector \<Rightarrow> bool \<times> ExpressionDetector" where
  "isValidExpr S E D =
     (if isLoopStmt S then (False, D)
      else if isSelfReplacement S E then (False, D)
      else if isBadDeclStmt S then (False, D)
      else if isNotOfControlVar E then (False, D)
      else if isTmpVarCheck S E then (False, D)
      else if isBadDeclRef S E then (False, D)
      else checkInvalid S E D)"

subsection \<open>The visitors\<close>

definition isCandidateClass :: "StmtClass \<Rightarrow> bool" where
  "isCandidateClass SC =
     (SC = ArraySubscriptExprClass \<or> SC = BinaryOperatorClass \<or> SC = CallExprClass \<or>
      SC = DeclRefExprClass \<or> SC = MemberExprClass \<or> SC = UnaryOperatorClass)"

text \<open>
  \<open>ExprDetectorStmtVisitor::VisitExpr\<close>, called with the current function, the current
  statement and the visited expression.
\<close>

definition VisitExpr :: "FunctionDecl \<Rightarrow> Stmt \<times> Stmt \<Rightarrow> ExpressionDetector \<Rightarrow> ExpressionDetector" where
  "VisitExpr CurrentFuncDecl SE D =
     (case SE of (CurrentStmt, E) \<Rightarrow>
        if inIncludedFile (info E) then D
        else if \<not> isCandidateClass (getStmtClass E) then D
        else if \<not> isIntegerType (exprType (info E)) \<and> \<not> isFloatingType (exprType (info E)) then D
        else (case isValidExpr CurrentStmt E D of
                (False, D1) \<Rightarrow> D1
              | (True, D1) \<Rightarrow>
                  (let D2 = D1\<lparr>ValidInstanceNum := ValidInstanceNum D1 + 1\<rparr>
                   in if ValidInstanceNum D2 = TransformationCounter D2
                      then D2\<lparr>TheFunc := Some CurrentFuncDecl, TheStmt := Some CurrentStmt,
                              TheExpr := Some E\<rparr>
                      else D2)))"

text \<open>
  The statement walker (CommonStatementVisitor over the front end's recursive visitor)
  is not part of ExpressionDetector.cpp. It enters the model as a parameter: for a
  function, the sequence of calls of \<open>VisitExpr\<close> it makes, each with the current
  statement and the visited expression. Both are nodes: a call made while the current
  statement is still the null pointer would dereference it in \<open>isValidExpr\<close>, and is
  not represented.
\<close>

type_synonym Walker = "FunctionDecl \<Rightarrow> (Stmt \<times> Stmt) list"

definition declStmtsOf :: "FunctionDecl \<Rightarrow> Stmt list" where
  "declStmtsOf FD = (case funcBody FD of None \<Rightarrow> [] | Some B \<Rightarrow> nodes B)"

text \<open>
  \<open>VisitFunctionDecl\<close> in its three parts: the first declaration named like the
  reporting function is noted; then, for a definition of the main file, the temporaries
  its declaration statements introduce are registered; then its expressions are visited
  and, after the walk, the unique expressions and the registry are cleared.
\<close>

definition noteFunction :: "FunctionDecl \<Rightarrow> ExpressionDetector \<Rightarrow> ExpressionDetector" where
  "noteFunction FD D =
     (if \<not> HasFunction (HFInfo D) \<and> funcName FD = FunctionName (HFInfo D)
      then D\<lparr>HFInfo := (HFInfo D)\<lparr>HasFunction := True, FunctionLoc := funcBeginLoc FD\<rparr>\<rparr>
      else D)"

definition isSkipped :: "FunctionDecl \<Rightarrow> bool" where
  "isSkipped FD = (funcInIncludedFile FD \<or> \<not> isThisDeclarationADefinition FD)"

definition registerTempVars :: "FunctionDecl \<Rightarrow> ExpressionDetector \<Rightarrow> ExpressionDetector" where
  "registerTempVars FD D = fold VisitDeclStmt (declStmtsOf FD) (noteFunction FD D)"

definition VisitFunctionDecl :: "Walker \<Rightarrow> FunctionDecl \<Rightarrow> ExpressionDetector \<Rightarrow> ExpressionDetector" where
  "VisitFunctionDecl walk FD D =
     (if isSkipped FD then noteFunction FD D
      else (fold (VisitExpr FD) (walk FD) (registerTempVars FD D))
             \<lparr>UniqueExprs := Map.empty, ProcessedExprs := Map.empty\<rparr>)"

subsection \<open>The consumer's entry points\<close>

text \<open>
  Modelled from the spec: the options of a run and the freshly constructed pass object.
  The constructor and the option plumbing live in the Transformation base class and in
  ExpressionDetector.h, which are not among the sources. A session starts with a zero
  counter, no triple, empty caches, no error and no edit.
\<close>

record Options =
  optCounter :: int
  optQueryInstanceOnly :: bool
  optCheckReference :: bool
  optReferenceValue :: string
  optDoReplacement :: bool
  optReplacement :: string

definition construct :: "Options \<Rightarrow> ExpressionDetector" where
  "construct opts =
     \<lparr> TransformationCounter = optCounter opts,
       ValidInstanceNum = 0,
       QueryInstanceOnly = optQueryInstanceOnly opts,
       TransError = TransSuccess,
       DoReplacement = optDoReplacement opts,
       Replacement = optReplacement opts,
       CheckReference = optCheckReference opts,
       ReferenceValue = optReferenceValue opts,
       ControlVarNamePrefix = [],
       HFInfo = \<lparr> HeaderName = [], FunctionName = [], FunctionDeclStr = [],
                  HasHeader = False, HasFunction = False, HeaderLoc = 0, FunctionLoc = 0 \<rparr>,
       TheFunc = None, TheStmt = None, TheExpr = None,
       UniqueExprs = Map.empty, ProcessedExprs = Map.empty,
       InvalidExprsInUOBO = Map.empty, TmpVarsInStmt = Map.empty,
       Edits = [] \<rparr>"

definition Initialize :: "ExpressionDetector \<Rightarrow> ExpressionDetector" where
  "Initialize D =
     (if CheckReference D
      then D\<lparr>ControlVarNamePrefix := CheckedVarNamePrefix,
              HFInfo := (HFInfo D)\<lparr>HeaderName := ''stdlib.h'', FunctionName := ''abort'',
                                    FunctionDeclStr := ''void abort(void)''\<rparr>\<rparr>
      else D\<lparr>ControlVarNamePrefix := PrintedVarNamePrefix,
              HFInfo := (HFInfo D)\<lparr>HeaderName := ''stdio.h'', FunctionName := ''printf'',
                                    FunctionDeclStr := ''int printf(const char *format, ...)''\<rparr>\<rparr>)"

text \<open>
  The preprocessor callback, on one inclusion directive: whether the directive is in the
  main file, the file it names and where it stands.
\<close>

definition InclusionDirective :: "bool \<times> string \<times> nat \<Rightarrow> ExpressionDetector \<Rightarrow> ExpressionDetector" where
  "InclusionDirective inc D =
     (case inc of (isInMainFile, FileName, HashLoc) \<Rightarrow>
        if \<not> isInMainFile then D
        else if \<not> HasHeader (HFInfo D) \<and> FileName = HeaderName (HFInfo D)
        then D\<lparr>HFInfo := (HFInfo D)\<lparr>HasHeader := True, HeaderLoc := HashLoc\<rparr>\<rparr>
        else D)"

text \<open>
  \<open>HandleTopLevelDecl\<close>, on a group of top-level declarations, given by the function
  declarations the collection visitor reaches in the group, in order. A C++ program is
  skipped.
\<close>

definition HandleTopLevelDecl ::
    "bool \<Rightarrow> Walker \<Rightarrow> FunctionDecl list \<Rightarrow> ExpressionDetector \<Rightarrow> ExpressionDetector" where
  "HandleTopLevelDecl isCXXLangOpt walk DG D =
     (if isCXXLangOpt then D\<lparr>ValidInstanceNum := 0\<rparr>
      else fold (VisitFunctionDecl walk) DG D)"

text \<open>
  What ends a run early: a failed \<open>TransAssert\<close> (the process exits) and the
  dereference of a null pointer.
\<close>

datatype Failure = TransAssertFailed string | NullPointerDereference

definition shouldAddFunctionDecl :: "ExpressionDetector \<Rightarrow> nat \<Rightarrow> bool" where
  "shouldAddFunctionDecl D Loc =
     ((\<not> HasFunction (HFInfo D) \<or> Loc < FunctionLoc (HFInfo D)) \<and>
      (\<not> HasHeader (HFInfo D) \<or> Loc < HeaderLoc (HFInfo D)))"

text \<open>\<open>dyn_cast<BuiltinType>\<close> on a type.\<close>

definition dyn_cast_BuiltinType :: "CType \<Rightarrow> BuiltinKind option" where
  "dyn_cast_BuiltinType Ty = (case Ty of BuiltinType k \<Rightarrow> Some k | _ \<Rightarrow> None)"

text \<open>
  \<open>getFormatString\<close> reads the kind through the pointer it is given, and asserts on a
  kind it does not list.
\<close>

definition getFormatString :: "BuiltinKind option \<Rightarrow> Failure + string" where
  "getFormatString BT =
     (case BT of
        None \<Rightarrow> Inl NullPointerDereference
      | Some k \<Rightarrow>
          (case k of
             BT_Bool \<Rightarrow> Inr ''u'' | BT_Char_U \<Rightarrow> Inr ''u'' | BT_WChar_U \<Rightarrow> Inr ''u''
           | BT_UChar \<Rightarrow> Inr ''u'' | BT_UShort \<Rightarrow> Inr ''u'' | BT_UInt \<Rightarrow> Inr ''u''
           | BT_Char_S \<Rightarrow> Inr ''d'' | BT_SChar \<Rightarrow> Inr ''d'' | BT_WChar_S \<Rightarrow> Inr ''d''
           | BT_Short \<Rightarrow> Inr ''d'' | BT_Int \<Rightarrow> Inr ''d'' | BT_Char16 \<Rightarrow> Inr ''d''
           | BT_Char32 \<Rightarrow> Inr ''d''
           | BT_ULong \<Rightarrow> Inr ''lu''
           | BT_Long \<Rightarrow> Inr ''ld''
           | BT_ULongLong \<Rightarrow> Inr ''llu''
           | BT_LongLong \<Rightarrow> Inr ''lld''
           | BT_Float \<Rightarrow> Inr ''f'' | BT_Double \<Rightarrow> Inr ''f''
           | BT_LongDouble \<Rightarrow> Inr ''Lf''
           | _ \<Rightarrow> Inl (TransAssertFailed ''Bad BuiltinType!'')))"

text \<open>\<open>std::to_string\<close> on an unsigned number: its decimal digits.\<close>

definition digit :: "nat \<Rightarrow> char" where
  "digit d = ''0123456789'' ! d"

function to_string :: "nat \<Rightarrow> string" where
  "to_string n = (if n < 10 then [digit n] else to_string (n div 10) @ [digit (n mod 10)])"
  by pat_completeness auto
termination
  by (relation "measure id") auto

text \<open>
  The name queries (TransNameQueryWrap, not among the sources) enter as a parameter: for
  a prefix and a function, the largest number that follows the prefix in a name of the
  function, an unsigned int. Adding one to it wraps around at \<open>2^32\<close>.
\<close>

type_synonym NameQuery = "string \<Rightarrow> FunctionDecl \<Rightarrow> 32 word"

text \<open>
  \<open>doRewrite\<close>, on the latched triple. The text it builds is kept in its pieces: the
  capture temporary, the guard counter, the guarded block and the increment.
\<close>

definition TmpVarName :: "NameQuery \<Rightarrow> FunctionDecl \<Rightarrow> string" where
  "TmpVarName query F = TmpVarNamePrefix @ to_string (unat (query TmpVarNamePrefix F + 1))"

definition ControlVarName :: "NameQuery \<Rightarrow> FunctionDecl \<Rightarrow> ExpressionDetector \<Rightarrow> string" where
  "ControlVarName query F D =
     ControlVarNamePrefix D @ to_string (unat (query (ControlVarNamePrefix D) F + 1))"

definition guardedCall :: "NameQuery \<Rightarrow> FunctionDecl \<Rightarrow> Stmt \<Rightarrow> ExpressionDetector \<Rightarrow> Failure + string" where
  \<open>guardedCall query F E D =
     (if CheckReference D
      then Inr (''  if ('' @ TmpVarName query F @ '' != '' @ ReferenceValue D @ '') '' @
                FunctionName (HFInfo D) @ ''();'' @ [CHR 0x0A])
      else (case getFormatString
                   (dyn_cast_BuiltinType (getUnqualifiedDesugaredType (exprType (info E)))) of
              Inl f \<Rightarrow> Inl f
            | Inr FormatStr \<Rightarrow>
                Inr (''  '' @ FunctionName (HFInfo D) @
                     [CHR ''('', CHR 0x22] @ ''cvise_value(%'' @ FormatStr @ '')'' @
                     [CHR 0x5C, CHR ''n'', CHR 0x22] @ '', '' @
                     TmpVarName query F @ '');'' @ [CHR 0x0A])))\<close>

definition doRewrite ::
    "NameQuery \<Rightarrow> FunctionDecl \<Rightarrow> Stmt \<Rightarrow> Stmt \<Rightarrow> ExpressionDetector \<Rightarrow> Failure + ExpressionDetector" where
  "doRewrite query F S E D =
     (let D1 = (if shouldAddFunctionDecl D (beginLoc (info S))
                then D\<lparr>Edits := Edits D @
                       [InsertTextAtStartOfMainFile (FunctionDeclStr (HFInfo D) @ '';'' @ [CHR 0x0A])]\<rparr>
                else D);
          Str1 = typeText (info E) @ '' '' @ TmpVarName query F @ '' = '' @ exprText (info E) @
                 '';'' @ [CHR 0x0A];
          Str2 = ''static int '' @ ControlVarName query F D @ '' = 0;'' @ [CHR 0x0A];
          Str3 = ''if ('' @ ControlVarName query F D @ '' == __CVISE_INSTANCE_NUMBER) {'' @
                 [CHR 0x0A]
      in case guardedCall query F E D of
           Inl f \<Rightarrow> Inl f
         | Inr Str4 \<Rightarrow>
             (let Str = Str1 @ Str2 @ Str3 @ Str4 @ ''}'' @ [CHR 0x0A] @
                        ''++'' @ ControlVarName query F D @ '';'';
                  NeedParen = (getStmtClass S \<noteq> DeclStmtClass)
              in Inr (D1\<lparr>Edits := Edits D1 @
                         [AddStringBeforeStmtAndReplaceExpr S Str E (TmpVarName query F) NeedParen]\<rparr>)))"

text \<open>
  \<open>HandleTranslationUnit\<close>, after the whole program was walked. The last argument is
  the front end's answer to "has an error occurred" after the edits.
\<close>

definition HandleTranslationUnit ::
    "NameQuery \<Rightarrow> bool \<Rightarrow> ExpressionDetector \<Rightarrow> Failure + ExpressionDetector" where
  "HandleTranslationUnit query hasErrorOccurred D =
     (if QueryInstanceOnly D then Inr D
      else if TransformationCounter D > ValidInstanceNum D
      then Inr (D\<lparr>TransError := TransMaxInstanceError\<rparr>)
      else (case TheFunc D of
              None \<Rightarrow> Inl (TransAssertFailed ''NULL TheFunc!'')
            | Some F \<Rightarrow>
          (case TheStmt D of
              None \<Rightarrow> Inl (TransAssertFailed ''NULL TheStmt!'')
            | Some S \<Rightarrow>
          (case TheExpr D of
              None \<Rightarrow> Inl (TransAssertFailed ''NULL TheExpr'')
            | Some E \<Rightarrow>
          (case (if DoReplacement D
                 then Inr (D\<lparr>Edits := Edits D @ [ReplaceExpr E (Replacement D)]\<rparr>)
                 else doRewrite query F S E D) of
              Inl f \<Rightarrow> Inl f
            | Inr D' \<Rightarrow>
                Inr (if hasErrorOccurred then D'\<lparr>TransError := TransInternalError\<rparr> else D'))))))"

text \<open>
  A whole run: construction, initialisation, the inclusion directives of the program,
  its groups of top-level declarations, and the end of the translation unit.
\<close>

record Program =
  isCXXLangOpt :: bool
  inclusionDirectives :: "(bool \<times> string \<times> nat) list"
  topLevelDecls :: "FunctionDecl list list"

definition collect :: "Walker \<Rightarrow> Program \<Rightarrow> Options \<Rightarrow> ExpressionDetector" where
  "collect walk P opts =
     fold (HandleTopLevelDecl (isCXXLangOpt P) walk) (topLevelDecls P)
       (fold InclusionDirective (inclusionDirectives P) (Initialize (construct opts)))"

definition runPass ::
    "Walker \<Rightarrow> NameQuery \<Rightarrow> bool \<Rightarrow> Program \<Rightarrow> Options \<Rightarrow> Failure + ExpressionDetector" where
  "runPass walk query hasErrorOccurred P opts =
     HandleTranslationUnit query hasErrorOccurred (collect walk P opts)"

subsection \<open>A statement walker\<close>

text \<open>
  Modelled from the spec: the statement walker (CommonStatementVisitor, which is not
  among the sources). The spec has it visit every statement and every expression
  sub-node in pre-order, exactly once, with the smallest enclosing statement as the
  current statement. Here a child of a compound statement, the branches of an \<open>if\<close>
  (children 1 and 2, after the condition) and the body of a loop (child 1 of a
  \<open>while\<close>, child 0 of a \<open>do\<close>, child 3 of a \<open>for\<close>) start a new current
  statement; every other node keeps the current statement of its parent. The walker is
  one instance of the parameter of \<open>VisitFunctionDecl\<close>.
\<close>

definition startsStatement :: "StmtClass \<Rightarrow> nat \<Rightarrow> bool" where
  "startsStatement pc n =
     (pc = CompoundStmtClass \<or> (pc = IfStmtClass \<and> 1 \<le> n) \<or> (pc = WhileStmtClass \<and> n = 1) \<or>
      (pc = DoStmtClass \<and> n = 0) \<or> (pc = ForStmtClass \<and> n = 3))"

fun walkStmt :: "Stmt \<Rightarrow> Stmt \<Rightarrow> (Stmt \<times> Stmt) list"
  and walkChildren :: "Stmt \<Rightarrow> StmtClass \<Rightarrow> nat \<Rightarrow> Stmt option list \<Rightarrow> (Stmt \<times> Stmt) list" where
  "walkStmt cur (Stmt i ks) =
     (if isExprClass (classOfKind (kind i)) then [(cur, Stmt i ks)] else []) @
     walkChildren cur (classOfKind (kind i)) 0 ks"
| "walkChildren cur pc n [] = []"
| "walkChildren cur pc n (None # ks) = walkChildren cur pc (Suc n) ks"
| "walkChildren cur pc n (Some c # ks) =
     walkStmt (if startsStatement pc n then c else cur) c @ walkChildren cur pc (Suc n) ks"

definition preorderWalk :: Walker where
  "preorderWalk FD = (case funcBody FD of None \<Rightarrow> [] | Some B \<Rightarrow> walkStmt B B)"

section \<open>Example programs\<close>

text \<open>
  Small C fragments as the front end would hand them over, used to run the definitions on
  concrete inputs. \<open>exNode\<close> builds a node of the main file with type text \<open>int\<close>.
\<close>

definition exNode :: "nat \<Rightarrow> Kind \<Rightarrow> CType \<Rightarrow> bool \<Rightarrow> string \<Rightarrow> Stmt option list \<Rightarrow> Stmt" where
  "exNode n k ty se txt ks =
     Stmt \<lparr> nodeId = n, kind = k, exprType = ty, hasSideEffects = se, inIncludedFile = False,
            beginLoc = n, exprText = txt, typeText = ''int'' \<rparr> ks"

definition exVar :: "nat \<Rightarrow> string \<Rightarrow> Decl" where
  "exVar n name = \<lparr> declId = n, declKind = VarDeclKind, declName = name \<rparr>"

definition exFun :: "nat \<Rightarrow> string \<Rightarrow> Decl" where
  "exFun n name = \<lparr> declId = n, declKind = FunctionDeclKind, declName = name \<rparr>"

definition intTy :: CType where
  "intTy = BuiltinType BT_Int"

text \<open>A reference to an int variable, and the same read as a value (under an implicit cast).\<close>

definition exRef :: "nat \<Rightarrow> Decl \<Rightarrow> Stmt" where
  "exRef n d = exNode n (DeclRefExpr d) intTy False (declName d) []"

definition exRead :: "nat \<Rightarrow> Stmt \<Rightarrow> Stmt" where
  "exRead n e = exNode n ImplicitCastExpr intTy False (exprText (info e)) [Some e]"

text \<open>The statement \<open>x++;\<close>: a post-increment (node 1) of the variable \<open>x\<close> (node 2).\<close>

definition exIncOperand :: Stmt where
  "exIncOperand = exRef 2 (exVar 100 ''x'')"

definition exInc :: Stmt where
  "exInc = exNode 1 (UnaryOperator UO_PostInc) intTy True ''x++'' [Some exIncOperand]"

text \<open>The expression \<open>a + b\<close> (node 10) over reads of two int variables.\<close>

definition exSum :: Stmt where
  "exSum = exNode 10 (BinaryOperator BO_Add) intTy False ''a + b''
             [Some (exRead 11 (exRef 12 (exVar 101 ''a''))),
              Some (exRead 13 (exRef 14 (exVar 102 ''b'')))]"

text \<open>The expression \<open>c ? a : b\<close> (node 20) over reads of three int variables.\<close>

definition exCond :: Stmt where
  "exCond = exNode 20 ConditionalOperator intTy False ''c ? a : b''
              [Some (exRead 21 (exRef 22 (exVar 103 ''c''))),
               Some (exRead 23 (exRef 24 (exVar 101 ''a''))),
               Some (exRead 25 (exRef 26 (exVar 102 ''b'')))]"

text \<open>Options of a print-mode run and of a reference-check run, both asking for instance 1.\<close>

definition exPrintOpts :: Options where
  "exPrintOpts = \<lparr> optCounter = 1, optQueryInstanceOnly = False, optCheckReference = False,
                    optReferenceValue = [], optDoReplacement = False, optReplacement = [] \<rparr>"

definition exCheckOpts :: Options where
  "exCheckOpts = \<lparr> optCounter = 1, optQueryInstanceOnly = False, optCheckReference = True,
                    optReferenceValue = ''42'', optDoReplacement = False, optReplacement = [] \<rparr>"

text \<open>
  The statement \<open>abort(x);\<close> where \<open>abort\<close> was declared without a prototype: a call
  (node 30) with direct callee \<open>abort\<close>, the callee expression (nodes 31, 32) and the
  argument, a read (node 33) of the int variable \<open>x\<close> (node 34).
\<close>

definition exAbortArg :: Stmt where
  "exAbortArg = exRef 34 (exVar 100 ''x'')"

definition exAbortCall :: Stmt where
  "exAbortCall = exNode 30 (CallExpr (Some (exFun 200 ''abort''))) (BuiltinType BT_Void) True
                   ''abort(x)''
                   [Some (exNode 31 ImplicitCastExpr OtherType False ''abort''
                            [Some (exNode 32 (DeclRefExpr (exFun 200 ''abort'')) OtherType False
                                     ''abort'' [])]),
                    Some (exRead 33 exAbortArg)]"

text \<open>The same with \<open>printf\<close>: the statement \<open>printf(x);\<close>.\<close>

definition exPrintfCall :: Stmt where
  "exPrintfCall = exNode 30 (CallExpr (Some (exFun 201 ''printf''))) intTy True
                   ''printf(x)''
                   [Some (exNode 31 ImplicitCastExpr OtherType False ''printf''
                            [Some (exNode 32 (DeclRefExpr (exFun 201 ''printf'')) OtherType False
                                     ''printf'' [])]),
                    Some (exRead 33 exAbortArg)]"

text \<open>
  A function already instrumented once: the declaration statement
  \<open>int __cvise_expr_tmp_1 = y;\<close> (node 40, initialiser nodes 41 and 42) and the statement
  \<open>return __cvise_expr_tmp_1 + y;\<close> (node 50) with the sum (node 51), the read of the
  temporary (nodes 52, 53) and the read of \<open>y\<close> (nodes 54, 55).
\<close>

definition exTmp :: Decl where
  "exTmp = exVar 110 ''__cvise_expr_tmp_1''"

definition exTmpDecl :: Stmt where
  "exTmpDecl = Stmt \<lparr> nodeId = 40, kind = DeclStmt [exTmp], exprType = OtherType,
                       hasSideEffects = False, inIncludedFile = False, beginLoc = 40,
                       exprText = [], typeText = [] \<rparr>
                 [Some (exRead 41 (exRef 42 (exVar 111 ''y'')))]"

definition exRetY :: Stmt where
  "exRetY = exRef 55 (exVar 111 ''y'')"

definition exRetSum :: Stmt where
  "exRetSum = exNode 51 (BinaryOperator BO_Add) intTy False ''__cvise_expr_tmp_1 + y''
                [Some (exRead 52 (exRef 53 exTmp)), Some (exRead 54 exRetY)]"

definition exRet :: Stmt where
  "exRet = Stmt \<lparr> nodeId = 50, kind = ReturnStmt, exprType = OtherType,
                   hasSideEffects = False, inIncludedFile = False, beginLoc = 50,
                   exprText = [], typeText = [] \<rparr> [Some exRetSum]"

text \<open>A statement node of the main file that is not an expression.\<close>

definition exStmt :: "nat \<Rightarrow> Kind \<Rightarrow> Stmt option list \<Rightarrow> Stmt" where
  "exStmt n k ks =
     Stmt \<lparr> nodeId = n, kind = k, exprType = OtherType, hasSideEffects = False,
            inIncludedFile = False, beginLoc = n, exprText = [], typeText = [] \<rparr> ks"

text \<open>A function definition of the main file with the given body.\<close>

definition exFunction :: "nat \<Rightarrow> string \<Rightarrow> Stmt \<Rightarrow> FunctionDecl" where
  "exFunction n name body =
     \<lparr> funcId = n, funcName = name, funcInIncludedFile = False,
       isThisDeclarationADefinition = True, funcBeginLoc = n, funcBody = Some body \<rparr>"

text \<open>
  \<open>int f(void) { x++; return a + b; }\<close>: the compound statement (node 60) holds the
  increment of the earlier example and a return statement (node 61) of the earlier sum.
\<close>

definition exSumRet :: Stmt where
  "exSumRet = exStmt 61 ReturnStmt [Some exSum]"

definition exF :: FunctionDecl where
  "exF = exFunction 300 ''f'' (exStmt 60 CompoundStmt [Some exInc, Some exSumRet])"

definition exProgram :: Program where
  "exProgram = \<lparr> isCXXLangOpt = False, inclusionDirectives = [(True, ''stdio.h'', 0)],
                  topLevelDecls = [[exF]] \<rparr>"

text \<open>
  \<open>int g(void) { return e; }\<close> for a variable \<open>e\<close> of the given type: the compound
  statement (node 70), the return statement (node 71), the read (node 72) and the name
  (node 73).
\<close>

definition exTypedRef :: "CType \<Rightarrow> Stmt" where
  "exTypedRef ty = exNode 73 (DeclRefExpr (exVar 120 ''e'')) ty False ''e'' []"

definition exTypedRet :: "CType \<Rightarrow> Stmt" where
  "exTypedRet ty = exStmt 71 ReturnStmt [Some (exNode 72 ImplicitCastExpr ty False ''e'' [Some (exTypedRef ty)])]"

definition exG :: "CType \<Rightarrow> FunctionDecl" where
  "exG ty = exFunction 301 ''g'' (exStmt 70 CompoundStmt [Some (exTypedRet ty)])"

definition exTypedProgram :: "CType \<Rightarrow> Program" where
  "exTypedProgram ty = \<lparr> isCXXLangOpt = False, inclusionDirectives = [],
                          topLevelDecls = [[exG ty]] \<rparr>"

text \<open>A name query for a function without any of the pass's variables.\<close>

definition exQuery :: NameQuery where
  "exQuery p F = 0"

text \<open>Options that only ask for the number of instances, with a counter of 7.\<close>

definition exQueryOpts :: Options where
  "exQueryOpts = \<lparr> optCounter = 7, optQueryInstanceOnly = True, optCheckReference = False,
                    optReferenceValue = [], optDoReplacement = False, optReplacement = [] \<rparr>"

text \<open>Print-mode options asking for instance 7, and a C++ program with the function \<open>f\<close>.\<close>

definition exLateOpts :: Options where
  "exLateOpts = \<lparr> optCounter = 7, optQueryInstanceOnly = False, optCheckReference = False,
                   optReferenceValue = [], optDoReplacement = False, optReplacement = [] \<rparr>"

definition exCXXProgram :: Program where
  "exCXXProgram = \<lparr> isCXXLangOpt = True, inclusionDirectives = [], topLevelDecls = [[exF]] \<rparr>"

text \<open>A program with two functions: \<open>f\<close> of above and \<open>int g(void) { return e; }\<close>.\<close>

definition exProgram2 :: Program where
  "exProgram2 = \<lparr> isCXXLangOpt = False, inclusionDirectives = [],
                   topLevelDecls = [[exF], [exG intTy]] \<rparr>"

text \<open>
  \<open>int h(void) { x = a + b; }\<close>: the compound statement (node 82) holds the assignment
  (node 80) of the earlier sum to the variable \<open>x\<close> (node 81).
\<close>

definition exAssign :: Stmt where
  "exAssign = exNode 80 (BinaryOperator BO_Assign) intTy True ''x = a + b''
                [Some (exRef 81 (exVar 100 ''x'')), Some exSum]"

definition exH :: FunctionDecl where
  "exH = exFunction 302 ''h'' (exStmt 82 CompoundStmt [Some exAssign])"

definition exProgram3 :: Program where
  "exProgram3 = \<lparr> isCXXLangOpt = False, inclusionDirectives = [], topLevelDecls = [[exH]] \<rparr>"


text \<open>
  A read of the volatile int variable \<open>v\<close>: the implicit cast (node 90) that performs
  the read has side effects, the name below it (node 91) has none.
\<close>

definition exVolatileRead :: Stmt where
  "exVolatileRead = exNode 90 ImplicitCastExpr intTy True ''v'' [Some (exRef 91 (exVar 104 ''v''))]"

text \<open>The earlier sum in wrappers: \<open>(__extension__ (a + b))\<close> (nodes 92, 93 and 94).\<close>

definition exWrappedSum :: Stmt where
  "exWrappedSum =
     exNode 92 ParenExpr intTy False ''(__extension__ (a + b))''
       [Some (exNode 93 (UnaryOperator UO_Extension) intTy False ''__extension__ (a + b)''
                [Some (exNode 94 ParenExpr intTy False ''(a + b)'' [Some exSum])])]"

text \<open>
  \<open>void k(void) { __extension__ x = a + b; }\<close>: the compound statement (node 87) holds
  the assignment (node 84) of the earlier sum to \<open>__extension__ x\<close> (node 85), the
  variable \<open>x\<close> (node 86) under the extension marker.
\<close>

definition exExtName :: Stmt where
  "exExtName = exRef 86 (exVar 100 ''x'')"

definition exExtTarget :: Stmt where
  "exExtTarget = exNode 85 (UnaryOperator UO_Extension) intTy False ''__extension__ x''
                   [Some exExtName]"

definition exExtAssign :: Stmt where
  "exExtAssign = exNode 84 (BinaryOperator BO_Assign) intTy True ''__extension__ x = a + b''
                   [Some exExtTarget, Some exSum]"

definition exK :: FunctionDecl where
  "exK = exFunction 303 ''k'' (exStmt 87 CompoundStmt [Some exExtAssign])"

definition exProgram4 :: Program where
  "exProgram4 = \<lparr> isCXXLangOpt = False, inclusionDirectives = [], topLevelDecls = [[exK]] \<rparr>"

text \<open>A name query for a function in which the largest number after a prefix is \<open>2^32 - 1\<close>.\<close>

definition exWrapQuery :: NameQuery where
  "exWrapQuery p F = - 1"
section \<open>Notions the properties are stated with\<close>

text \<open>
  The kinds the switch of \<open>isIdenticalExpr\<close> lists, and a node the comparison can
  handle: one without side effects and of a listed kind.
\<close>

definition listedKind :: "Kind \<Rightarrow> bool" where
  "listedKind k =
     (case k of
        ArraySubscriptExpr \<Rightarrow> True | CallExpr c \<Rightarrow> True | CStyleCastExpr t \<Rightarrow> True
      | MemberExpr m \<Rightarrow> True | DeclRefExpr d \<Rightarrow> True | CompoundAssignOperator opc \<Rightarrow> True
      | BinaryOperator opc \<Rightarrow> True | UnaryOperator opc \<Rightarrow> True | CharacterLiteral v \<Rightarrow> True
      | StringLiteral b \<Rightarrow> True | IntegerLiteral w v \<Rightarrow> True | FloatingLiteral s b \<Rightarrow> True
      | _ \<Rightarrow> False)"

definition comparableNode :: "Stmt \<Rightarrow> bool" where
  "comparableNode N = (\<not> HasSideEffects N \<and> listedKind (kind (info N)))"

text \<open>
  The nodes the comparison of an expression with itself reaches: the expression stripped
  of its wrappers and, for each child of the stripped node that is an expression, the
  nodes reached from that child. The wrappers themselves and the children that are not
  expressions are not reached.
\<close>

function reachedNodes :: "Stmt \<Rightarrow> Stmt list"
  and reachedInChildren :: "Stmt option list \<Rightarrow> Stmt list" where
  "reachedNodes E =
     (case IgnoreParenImpCasts E of Stmt i ks \<Rightarrow> Stmt i ks # reachedInChildren ks)"
| "reachedInChildren [] = []"
| "reachedInChildren (k # ks) =
     (case dyn_cast_Expr k of None \<Rightarrow> [] | Some c \<Rightarrow> reachedNodes c) @ reachedInChildren ks"
  by pat_completeness auto
termination
proof (relation "measure (\<lambda>x. case x of
          Inl E \<Rightarrow> 2 * size E
        | Inr ks \<Rightarrow> 2 * size_list (size_option size) ks + 1)", goal_cases)
  case 1
  show ?case by simp
next
  case (2 E i ks)
  have "size (IgnoreParenImpCasts E) \<le> size E" by (rule size_IgnoreParenImpCasts)
  moreover have "IgnoreParenImpCasts E = Stmt i ks" using 2 by simp
  ultimately have "size (Stmt i ks) \<le> size E" by simp
  then show ?case by simp
next
  case (3 k ks c)
  then show ?case by (cases k) (auto split: if_splits)
next
  case (4 k ks)
  show ?case by simp
qed

declare reachedNodes.simps [simp del]


definition untouched :: "ExpressionDetector \<Rightarrow>
   int \<times> int \<times> bool \<times> TransErrorKind \<times> bool \<times> string \<times> bool \<times> string \<times> string \<times>
   HeaderFunctionInfo \<times> FunctionDecl option \<times> Stmt option \<times> Stmt option \<times> (nat \<rightharpoonup> Stmt) \<times> Edit list" where
  "untouched D =
     (TransformationCounter D, ValidInstanceNum D, QueryInstanceOnly D, TransError D,
      DoReplacement D, Replacement D, CheckReference D, ReferenceValue D,
      ControlVarNamePrefix D, HFInfo D, TheFunc D, TheStmt D, TheExpr D, ProcessedExprs D,
      Edits D)"

text \<open>
  A node that mutates or takes the address of its first operand: an increment, a
  decrement, an address-of, or an assignment (simple or compound).
\<close>

definition mutatesOperand :: "Stmt \<Rightarrow> bool" where
  "mutatesOperand N =
     (case kind (info N) of
        UnaryOperator opc \<Rightarrow> isIncrementDecrementOp opc \<or> opc = UO_AddrOf
      | BinaryOperator opc \<Rightarrow> isAssignmentOp opc
      | CompoundAssignOperator opc \<Rightarrow> isAssignmentOp opc
      | _ \<Rightarrow> False)"

text \<open>
  The cache of invalid expressions is sound for a statement when it has no entry for it
  or the entry is what the collector computes from the statement.
\<close>

definition invalidCacheOk :: "ExpressionDetector \<Rightarrow> Stmt \<Rightarrow> bool" where
  "invalidCacheOk D S =
     (InvalidExprsInUOBO D (ptr S) = None \<or>
      InvalidExprsInUOBO D (ptr S) = Some (LocalUOBOVisitor S))"

text \<open>The options of a run and the edits requested so far: what no step of the walk changes.\<close>

definition settings :: "ExpressionDetector \<Rightarrow>
   int \<times> bool \<times> TransErrorKind \<times> bool \<times> string \<times> bool \<times> string \<times> string \<times> Edit list" where
  "settings D =
     (TransformationCounter D, QueryInstanceOnly D, TransError D, DoReplacement D,
      Replacement D, CheckReference D, ReferenceValue D, ControlVarNamePrefix D, Edits D)"

text \<open>
  A call of \<open>VisitExpr\<close> accepts its expression when the expression is in the main file,
  of a candidate class and of integer or floating type, and the validity filter returns
  true in the current state.
\<close>

definition passesTypeAndKind :: "Stmt \<Rightarrow> bool" where
  "passesTypeAndKind E =
     (\<not> inIncludedFile (info E) \<and> isCandidateClass (getStmtClass E) \<and>
      (isIntegerType (exprType (info E)) \<or> isFloatingType (exprType (info E))))"

definition accepts :: "Stmt \<times> Stmt \<Rightarrow> ExpressionDetector \<Rightarrow> bool" where
  "accepts SE D = (passesTypeAndKind (snd SE) \<and> fst (isValidExpr (fst SE) (snd SE) D))"

text \<open>
  The log of a fold: what each step logs in the state it starts from, in order.
\<close>

fun logFold :: "('a \<Rightarrow> 's \<Rightarrow> 'l list) \<Rightarrow> ('a \<Rightarrow> 's \<Rightarrow> 's) \<Rightarrow> 'a list \<Rightarrow> 's \<Rightarrow> 'l list" where
  "logFold lg step [] s = []"
| "logFold lg step (x # xs) s = lg x s @ logFold lg step xs (step x s)"

text \<open>
  The latched triple of a state, and the triple that latching a candidate produces.
\<close>

type_synonym Candidate = "FunctionDecl \<times> Stmt \<times> Stmt"

definition latched :: "ExpressionDetector \<Rightarrow> FunctionDecl option \<times> Stmt option \<times> Stmt option" where
  "latched D = (TheFunc D, TheStmt D, TheExpr D)"

definition latchOf :: "Candidate \<Rightarrow> FunctionDecl option \<times> Stmt option \<times> Stmt option" where
  "latchOf c = (Some (fst c), Some (fst (snd c)), Some (snd (snd c)))"

text \<open>
  The accepted candidates of a run, in the order of the walk: of one call of
  \<open>VisitExpr\<close>, of a function, of a group of top-level declarations, of a program.
\<close>

definition acceptedAt :: "FunctionDecl \<Rightarrow> Stmt \<times> Stmt \<Rightarrow> ExpressionDetector \<Rightarrow> Candidate list" where
  "acceptedAt F SE D = (if accepts SE D then [(F, fst SE, snd SE)] else [])"

definition candidatesOfFunction :: "Walker \<Rightarrow> FunctionDecl \<Rightarrow> ExpressionDetector \<Rightarrow> Candidate list" where
  "candidatesOfFunction walk FD D =
     (if isSkipped FD then []
      else logFold (acceptedAt FD) (VisitExpr FD) (walk FD) (registerTempVars FD D))"

definition candidatesOfGroup ::
    "bool \<Rightarrow> Walker \<Rightarrow> FunctionDecl list \<Rightarrow> ExpressionDetector \<Rightarrow> Candidate list" where
  "candidatesOfGroup cxx walk DG D =
     (if cxx then [] else logFold (candidatesOfFunction walk) (VisitFunctionDecl walk) DG D)"

definition candidates :: "Walker \<Rightarrow> Program \<Rightarrow> Options \<Rightarrow> Candidate list" where
  "candidates walk P opts =
     logFold (candidatesOfGroup (isCXXLangOpt P) walk) (HandleTopLevelDecl (isCXXLangOpt P) walk)
       (topLevelDecls P)
       (fold InclusionDirective (inclusionDirectives P) (Initialize (construct opts)))"

text \<open>
  The executions of the assignment to the triple in a run, each with the candidate it
  latches: \<open>VisitExpr\<close> assigns when it accepts and the incremented counter equals the
  requested instance.
\<close>

definition latchedAt :: "FunctionDecl \<Rightarrow> Stmt \<times> Stmt \<Rightarrow> ExpressionDetector \<Rightarrow> Candidate list" where
  "latchedAt F SE D =
     (if accepts SE D \<and> ValidInstanceNum D + 1 = TransformationCounter D
      then [(F, fst SE, snd SE)] else [])"

definition latchesOfFunction :: "Walker \<Rightarrow> FunctionDecl \<Rightarrow> ExpressionDetector \<Rightarrow> Candidate list" where
  "latchesOfFunction walk FD D =
     (if isSkipped FD then []
      else logFold (latchedAt FD) (VisitExpr FD) (walk FD) (registerTempVars FD D))"

definition latchesOfGroup ::
    "bool \<Rightarrow> Walker \<Rightarrow> FunctionDecl list \<Rightarrow> ExpressionDetector \<Rightarrow> Candidate list" where
  "latchesOfGroup cxx walk DG D =
     (if cxx then [] else logFold (latchesOfFunction walk) (VisitFunctionDecl walk) DG D)"

definition latches :: "Walker \<Rightarrow> Program \<Rightarrow> Options \<Rightarrow> Candidate list" where
  "latches walk P opts =
     logFold (latchesOfGroup (isCXXLangOpt P) walk) (HandleTopLevelDecl (isCXXLangOpt P) walk)
       (topLevelDecls P)
       (fold InclusionDirective (inclusionDirectives P) (Initialize (construct opts)))"

text \<open>
  A step of the walk counts what it logs: it keeps the requested instance, adds the
  length of its log to the counter, and latches the logged candidate whose ordinal is the
  requested instance, if there is one, leaving the triple alone otherwise.
\<close>

definition counts :: "('a \<Rightarrow> ExpressionDetector \<Rightarrow> Candidate list) \<Rightarrow>
    ('a \<Rightarrow> ExpressionDetector \<Rightarrow> ExpressionDetector) \<Rightarrow> bool" where
  "counts lg step =
     (\<forall>x D. TransformationCounter (step x D) = TransformationCounter D \<and>
            ValidInstanceNum (step x D) = ValidInstanceNum D + int (length (lg x D)) \<and>
            latched (step x D) =
              (if ValidInstanceNum D < TransformationCounter D \<and>
                  TransformationCounter D \<le> ValidInstanceNum D + int (length (lg x D))
               then latchOf (lg x D ! nat (TransformationCounter D - ValidInstanceNum D - 1))
               else latched D))"

text \<open>
  A step of the walk latches at most once: it keeps the requested instance, never
  lowers the counter, logs at most one assignment, logs one only when the counter
  passes from below the requested instance to it, and the triple afterwards is the one
  assigned, or the old one when nothing was assigned.
\<close>

definition latchesOnce :: "('a \<Rightarrow> ExpressionDetector \<Rightarrow> Candidate list) \<Rightarrow>
    ('a \<Rightarrow> ExpressionDetector \<Rightarrow> ExpressionDetector) \<Rightarrow> bool" where
  "latchesOnce lg step =
     (\<forall>x D. TransformationCounter (step x D) = TransformationCounter D \<and>
            ValidInstanceNum D \<le> ValidInstanceNum (step x D) \<and>
            length (lg x D) \<le> 1 \<and>
            (lg x D \<noteq> [] \<longrightarrow> ValidInstanceNum D < TransformationCounter D \<and>
                              TransformationCounter D \<le> ValidInstanceNum (step x D)) \<and>
            latched (step x D) = (case lg x D of [] \<Rightarrow> latched D | c # cs \<Rightarrow> latchOf c))"

text \<open>
  Two states have the same caches on a set of statement pointers when their unique
  expressions and registries are equal and their invalid-expression and temporary caches
  agree at these pointers.
\<close>

definition sameCaches :: "nat set \<Rightarrow> ExpressionDetector \<Rightarrow> ExpressionDetector \<Rightarrow> bool" where
  "sameCaches K D D' =
     (UniqueExprs D = UniqueExprs D' \<and> ProcessedExprs D = ProcessedExprs D' \<and>
      (\<forall>k\<in>K. InvalidExprsInUOBO D k = InvalidExprsInUOBO D' k \<and>
             TmpVarsInStmt D k = TmpVarsInStmt D' k))"

text \<open>The states in which the functions of a run are visited, in order.\<close>

definition functionStartsOfGroup ::
    "bool \<Rightarrow> Walker \<Rightarrow> FunctionDecl list \<Rightarrow> ExpressionDetector \<Rightarrow> ExpressionDetector list" where
  "functionStartsOfGroup cxx walk DG D =
     (if cxx then [] else logFold (\<lambda>FD D. [D]) (VisitFunctionDecl walk) DG D)"

definition functionStarts :: "Walker \<Rightarrow> Program \<Rightarrow> Options \<Rightarrow> ExpressionDetector list" where
  "functionStarts walk P opts =
     logFold (functionStartsOfGroup (isCXXLangOpt P) walk)
       (HandleTopLevelDecl (isCXXLangOpt P) walk) (topLevelDecls P)
       (fold InclusionDirective (inclusionDirectives P) (Initialize (construct opts)))"


text \<open>
  The current statements of a run: the statements the walker hands to \<open>VisitExpr\<close> in
  the functions of the program.
\<close>

definition currentStmts :: "Walker \<Rightarrow> Program \<Rightarrow> Stmt set" where
  "currentStmts walk P = (\<Union>DG\<in>set (topLevelDecls P). \<Union>FD\<in>set DG. fst ` set (walk FD))"

text \<open>
  The cache of invalid expressions is sound on a set of statements when it is sound for
  each; a candidate avoids the invalid expressions when its expression is not among
  those of its statement.
\<close>

definition cacheSoundOn :: "Stmt set \<Rightarrow> ExpressionDetector \<Rightarrow> bool" where
  "cacheSoundOn Ss D = (\<forall>S\<in>Ss. invalidCacheOk D S)"

definition avoidsInvalid :: "Candidate \<Rightarrow> bool" where
  "avoidsInvalid c = (ptr (snd (snd c)) \<notin> LocalUOBOVisitor (fst (snd c)))"

section \<open>Unfolding rules for running the definitions\<close>

lemmas example_defs =
  exNode_def exVar_def exFun_def intTy_def exRef_def exRead_def exIncOperand_def exInc_def
  exSum_def exCond_def exPrintOpts_def exCheckOpts_def exAbortArg_def exAbortCall_def
  exPrintfCall_def exTmp_def exTmpDecl_def exRetY_def exRetSum_def exRet_def exStmt_def
  exFunction_def exSumRet_def exF_def exProgram_def exTypedRef_def exTypedRet_def exG_def
  exTypedProgram_def exQuery_def exQueryOpts_def exLateOpts_def exCXXProgram_def
  exProgram2_def exAssign_def exH_def exProgram3_def exVolatileRead_def exWrappedSum_def
  exExtName_def exExtTarget_def exExtAssign_def exK_def exProgram4_def exWrapQuery_def

lemmas filter_defs =
  isValidExpr_def isLoopStmt_def isSelfReplacement_def isBadDeclStmt_def isNotOfControlVar_def
  isTmpVarCheck_def isBadDeclRef_def checkInvalid_def checkUnique_def checkTmpVars_def
  hasIdenticalExpr_def LocalUOBOVisitor_def LocalTmpVarCollector_def VisitUnaryOperator_def
  VisitBinaryOperator_def VisitDeclRefExpr_def dyn_cast_UnaryOperator_def
  dyn_cast_BinaryOperator_def dyn_cast_DeclRefExpr_def getSubExpr_def getRHS_def
  getStmtClass_def ptr_def refToTmpVar_def startswith_def TmpVarNamePrefix_def
  PrintedVarNamePrefix_def CheckedVarNamePrefix_def Let_def
  IgnoreParenImpCasts_Stmt IgnoreParenCasts_Stmt IgnoreParensSingleStep_def
  IgnoreImplicitCastsExtraSingleStep_def IgnoreCastsSingleStep_def nthChild_def

lemmas run_defs =
  runPass_def collect_def HandleTranslationUnit_def HandleTopLevelDecl_def VisitFunctionDecl_def noteFunction_def
  isSkipped_def registerTempVars_def
  VisitExpr_def VisitDeclStmt_def addOneTempVar_def declStmtsOf_def InclusionDirective_def
  Initialize_def construct_def preorderWalk_def startsStatement_def isCandidateClass_def
  doRewrite_def guardedCall_def getFormatString_def dyn_cast_BuiltinType_def
  shouldAddFunctionDecl_def TmpVarName_def ControlVarName_def digit_def

lemmas log_defs =
  candidates_def candidatesOfGroup_def candidatesOfFunction_def acceptedAt_def
  latches_def latchesOfGroup_def latchesOfFunction_def latchedAt_def
  functionStarts_def functionStartsOfGroup_def accepts_def passesTypeAndKind_def

section \<open>The structural-equality oracle: symmetry, side effects, reflexivity\<close>

lemma identicalPayload_sym:
  "classOfKind k1 = classOfKind k2 \<Longrightarrow> identicalPayload k1 k2 = identicalPayload k2 k1"
  by (cases k1; cases k2; simp add: identicalPayload_def eq_commute; blast?)

lemma identicalPayload_self: "identicalPayload k k = listedKind k"
  by (cases k) (simp_all add: identicalPayload_def listedKind_def)

lemma identicalPayload_listed: "identicalPayload k1 k2 \<Longrightarrow> listedKind k1"
  by (cases k1) (simp_all add: identicalPayload_def listedKind_def)

lemma isIdenticalExpr_sym_aux:
  "isIdenticalExpr E1 E2 = isIdenticalExpr E2 E1"
  "identicalChildren ks1 ks2 = identicalChildren ks2 ks1"
proof (induction E1 E2 and ks1 ks2 rule: isIdenticalExpr_identicalChildren.induct)
  case (4 E1 E2)
  obtain i1 ks1 where a: "IgnoreParenImpCasts E1 = Stmt i1 ks1" by (cases "IgnoreParenImpCasts E1") auto
  obtain i2 ks2 where b: "IgnoreParenImpCasts E2 = Stmt i2 ks2" by (cases "IgnoreParenImpCasts E2") auto
  show ?case
  proof (cases "classOfKind (kind i1) = classOfKind (kind i2) \<and> \<not> hasSideEffects i1 \<and> \<not> hasSideEffects i2")
    case True
    then have "identicalChildren ks1 ks2 = identicalChildren ks2 ks1"
      using 4[OF refl a b] by simp
    with True a b show ?thesis by (simp add: identicalPayload_sym isIdenticalExpr.simps(4))
  next
    case False
    with a b show ?thesis by (auto simp: isIdenticalExpr.simps(4))
  qed
qed simp_all

lemma sideEffects_left:
  "HasSideEffects (IgnoreParenImpCasts E) \<Longrightarrow> \<not> isIdenticalExpr (Some E) X"
  by (cases X; cases "IgnoreParenImpCasts E")
     (auto simp: HasSideEffects_def isIdenticalExpr.simps(4) split: Stmt.splits)

lemma unlisted_left:
  "\<not> listedKind (kind (info (IgnoreParenImpCasts E))) \<Longrightarrow> \<not> isIdenticalExpr (Some E) X"
proof (cases X)
  case None
  then show ?thesis by simp
next
  case (Some E2)
  assume u: "\<not> listedKind (kind (info (IgnoreParenImpCasts E)))"
  obtain i1 ks1 where a: "IgnoreParenImpCasts E = Stmt i1 ks1" by (cases "IgnoreParenImpCasts E") auto
  obtain i2 ks2 where b: "IgnoreParenImpCasts E2 = Stmt i2 ks2" by (cases "IgnoreParenImpCasts E2") auto
  have "\<not> identicalPayload (kind i1) (kind i2)"
    using u a identicalPayload_listed[of "kind i1" "kind i2"] by auto
  then show ?thesis using Some a b by (simp add: isIdenticalExpr.simps(4))
qed

lemma isIdenticalExpr_self_aux:
  "isIdenticalExpr (Some E) (Some E) = list_all comparableNode (reachedNodes E)"
  "identicalChildren ks ks = list_all comparableNode (reachedInChildren ks)"
proof (induction E and ks rule: reachedNodes_reachedInChildren.induct)
  case (1 E)
  obtain i ks where a: "IgnoreParenImpCasts E = Stmt i ks" by (cases "IgnoreParenImpCasts E") auto
  have "identicalChildren ks ks = list_all comparableNode (reachedInChildren ks)"
    using 1[OF a] .
  moreover have "comparableNode (Stmt i ks) = (\<not> hasSideEffects i \<and> listedKind (kind i))"
    by (simp add: comparableNode_def HasSideEffects_def)
  ultimately show ?case
    using a
    by (auto simp: isIdenticalExpr.simps(4) reachedNodes.simps[of E] identicalPayload_self)
next
  case 2
  show ?case by simp
next
  case (3 k ks)
  show ?case
  proof (cases "dyn_cast_Expr k")
    case None
    then show ?thesis using 3(2) by simp
  next
    case (Some c)
    then show ?thesis using 3(1)[OF Some] 3(2) by auto
  qed
qed

text \<open>
  C3. The oracle is symmetric on all (possibly null) pointers. It compares the
  expressions stripped of their wrappers and tests the side effects of the stripped
  expressions: an expression whose stripped node has side effects, or is of a kind the
  switch does not list, is identical to nothing, itself included. And an expression is
  identical to itself exactly when every node the comparison reaches is free of side
  effects and of a listed kind. So reflexivity does not hold for every expression
  without side effects (a conditional operator falls to the default of the switch), and
  an expression whose side effect sits in a wrapper that is stripped (a volatile read)
  is identical to itself.
\<close>

theorem isIdenticalExpr_symmetric_and_reflexive_on_listed:
  "(isIdenticalExpr E1 E2 = isIdenticalExpr E2 E1) \<and>
   (HasSideEffects (IgnoreParenImpCasts E) \<or>
    \<not> listedKind (kind (info (IgnoreParenImpCasts E))) \<longrightarrow>
      \<not> isIdenticalExpr (Some E) X \<and> \<not> isIdenticalExpr X (Some E)) \<and>
   (isIdenticalExpr (Some E') (Some E') = list_all comparableNode (reachedNodes E'))"
proof (intro conjI impI)
  show "isIdenticalExpr E1 E2 = isIdenticalExpr E2 E1"
    by (rule isIdenticalExpr_sym_aux(1))
next
  assume h: "HasSideEffects (IgnoreParenImpCasts E) \<or>
    \<not> listedKind (kind (info (IgnoreParenImpCasts E)))"
  then show l: "\<not> isIdenticalExpr (Some E) X"
    using sideEffects_left[of E X] unlisted_left[of E X] by blast
  then show "\<not> isIdenticalExpr X (Some E)" by (simp add: isIdenticalExpr_sym_aux(1)[of X])
next
  show "isIdenticalExpr (Some E') (Some E') = list_all comparableNode (reachedNodes E')"
    by (rule isIdenticalExpr_self_aux(1))
qed

theorem isIdenticalExpr_symmetric_and_reflexive_on_listed_witness:
  "(isIdenticalExpr (Some exSum) (Some exCond) = isIdenticalExpr (Some exCond) (Some exSum)) \<and>
   HasSideEffects (IgnoreParenImpCasts exInc) \<and>
   \<not> isIdenticalExpr (Some exInc) (Some exInc) \<and>
   \<not> listedKind (kind (info (IgnoreParenImpCasts exCond))) \<and>
   \<not> isIdenticalExpr (Some exCond) (Some exSum) \<and>
   reachedNodes exWrappedSum =
     [exSum, exRef 12 (exVar 101 ''a''), exRef 14 (exVar 102 ''b'')] \<and>
   list_all comparableNode (reachedNodes exWrappedSum) \<and>
   isIdenticalExpr (Some exWrappedSum) (Some exWrappedSum)"
proof -
  have se: "HasSideEffects (IgnoreParenImpCasts exInc)"
    by (simp add: example_defs filter_defs HasSideEffects_def)
  have ul: "\<not> listedKind (kind (info (IgnoreParenImpCasts exCond)))"
    by (simp add: example_defs filter_defs listedKind_def)
  have rn: "reachedNodes exWrappedSum =
     [exSum, exRef 12 (exVar 101 ''a''), exRef 14 (exVar 102 ''b'')]"
    by (simp add: example_defs filter_defs reachedNodes.simps)
  have ok: "list_all comparableNode (reachedNodes exWrappedSum)"
    unfolding rn by (simp add: example_defs comparableNode_def HasSideEffects_def listedKind_def)
  show ?thesis
    using isIdenticalExpr_symmetric_and_reflexive_on_listed
            [of "Some exSum" "Some exCond" exInc "Some exInc" exWrappedSum]
          isIdenticalExpr_symmetric_and_reflexive_on_listed
            [of "Some exSum" "Some exCond" exCond "Some exSum" exWrappedSum]
          se ul rn ok
    by simp
qed

theorem reflexivity_fails_and_wrapper_side_effect_passes:
  "\<not> HasSideEffects exCond \<and> list_all (\<lambda>N. \<not> HasSideEffects N) (nodes exCond) \<and>
   \<not> isIdenticalExpr (Some exCond) (Some exCond) \<and>
   HasSideEffects exVolatileRead \<and>
   isIdenticalExpr (Some exVolatileRead) (Some exVolatileRead)"
  by (simp add: example_defs filter_defs HasSideEffects_def identicalPayload_def
        isIdenticalExpr.simps(4))
section \<open>What the validity filter changes\<close>

lemma checkTmpVars_untouched: "untouched (snd (checkTmpVars S E D)) = untouched D"
  by (simp add: checkTmpVars_def untouched_def Let_def split: option.splits)


lemma checkTmpVars_Invalid: "InvalidExprsInUOBO (snd (checkTmpVars S E D)) = InvalidExprsInUOBO D"
  by (simp add: checkTmpVars_def Let_def split: option.splits)


lemma checkUnique_untouched: "untouched (snd (checkUnique S E D)) = untouched D"
  using checkTmpVars_untouched
  by (simp add: checkUnique_def Let_def untouched_def)

lemma checkUnique_Invalid: "InvalidExprsInUOBO (snd (checkUnique S E D)) = InvalidExprsInUOBO D"
  by (simp add: checkUnique_def Let_def checkTmpVars_Invalid)




lemmas early_defs = isValidExpr_def checkInvalid_def Let_def

lemma isValidExpr_untouched: "untouched (snd (isValidExpr S E D)) = untouched D"
  using checkUnique_untouched
  by (simp add: early_defs untouched_def split: option.splits)





section \<open>Names in a call of the reporting function\<close>

text \<open>
  C4. A name reference is rejected whenever the current statement is a call whose direct
  callee is called \<open>printf\<close>, the reporting function of print mode. The rule is tied to
  that name and not to the configured reporting function: in reference-check mode, where
  the reporting function is \<open>abort\<close>, a name among the arguments of a call of \<open>abort\<close>
  is not rejected by it.
\<close>

theorem printf_call_rejects_name_references:
  "(kind (info S) = CallExpr (Some FD) \<and> declName FD = ''printf'' \<and>
    kind (info E) = DeclRefExpr d \<longrightarrow> \<not> fst (isValidExpr S E D)) \<and>
   (\<not> CheckReference D0 \<longrightarrow> FunctionName (HFInfo (Initialize D0)) = ''printf'')"
proof (intro conjI impI)
  assume h: "kind (info S) = CallExpr (Some FD) \<and> declName FD = ''printf'' \<and>
    kind (info E) = DeclRefExpr d"
  then have "isBadDeclRef S E"
    by (simp add: isBadDeclRef_def dyn_cast_DeclRefExpr_def)
  then show "\<not> fst (isValidExpr S E D)"
    by (simp add: isValidExpr_def)
next
  assume "\<not> CheckReference D0"
  then show "FunctionName (HFInfo (Initialize D0)) = ''printf''"
    by (simp add: Initialize_def)
qed

theorem printf_call_rejects_name_references_witness:
  "kind (info exPrintfCall) = CallExpr (Some (exFun 201 ''printf'')) \<and>
   declName (exFun 201 ''printf'') = ''printf'' \<and>
   kind (info exAbortArg) = DeclRefExpr (exVar 100 ''x'') \<and>
   \<not> CheckReference (construct exPrintOpts) \<and>
   \<not> fst (isValidExpr exPrintfCall exAbortArg (Initialize (construct exPrintOpts))) \<and>
   FunctionName (HFInfo (Initialize (construct exPrintOpts))) = ''printf''"
proof -
  have a: "kind (info exPrintfCall) = CallExpr (Some (exFun 201 ''printf'')) \<and>
           declName (exFun 201 ''printf'') = ''printf'' \<and>
           kind (info exAbortArg) = DeclRefExpr (exVar 100 ''x'')"
    by (simp add: example_defs)
  have b: "\<not> CheckReference (construct exPrintOpts)"
    by (simp add: example_defs construct_def)
  show ?thesis
    using printf_call_rejects_name_references
            [of exPrintfCall "exFun 201 ''printf''" exAbortArg "exVar 100 ''x''"
                "Initialize (construct exPrintOpts)" "construct exPrintOpts"] a b
    by blast
qed

theorem abort_call_argument_accepted:
  "CheckReference (Initialize (construct exCheckOpts)) \<and>
   FunctionName (HFInfo (Initialize (construct exCheckOpts))) = ''abort'' \<and>
   kind (info exAbortCall) = CallExpr (Some (exFun 200 ''abort'')) \<and>
   getRHS exAbortCall = Some (exRead 33 exAbortArg) \<and>
   kind (info exAbortArg) = DeclRefExpr (exVar 100 ''x'') \<and>
   fst (isValidExpr exAbortCall exAbortArg (Initialize (construct exCheckOpts)))"
  by (simp add: example_defs filter_defs Initialize_def construct_def)

section \<open>The effect of the filter on the pass object\<close>




section \<open>What the walk leaves alone\<close>

lemma fold_keeps:
  assumes "\<And>x s. f (step x s) = f s"
  shows "f (fold step xs s) = f s"
  using assms by (induction xs arbitrary: s) simp_all

lemma VisitExpr_alt:
  "VisitExpr F SE D =
     (let D1 = (if passesTypeAndKind (snd SE) then snd (isValidExpr (fst SE) (snd SE) D) else D)
      in if accepts SE D
         then (if ValidInstanceNum D1 + 1 = TransformationCounter D1
               then D1\<lparr>ValidInstanceNum := ValidInstanceNum D1 + 1, TheFunc := Some F,
                       TheStmt := Some (fst SE), TheExpr := Some (snd SE)\<rparr>
               else D1\<lparr>ValidInstanceNum := ValidInstanceNum D1 + 1\<rparr>)
         else D1)"
proof -
  obtain S E where se: "SE = (S, E)" by (cases SE)
  obtain ok D1 where r: "isValidExpr S E D = (ok, D1)" by (cases "isValidExpr S E D")
  show ?thesis
    by (cases ok) (auto simp: se r VisitExpr_def accepts_def passesTypeAndKind_def Let_def)
qed

lemma VisitExpr_settings: "settings (VisitExpr F SE D) = settings D"
proof -
  have "untouched (snd (isValidExpr (fst SE) (snd SE) D)) = untouched D"
    by (rule isValidExpr_untouched)
  then show ?thesis
    by (simp add: VisitExpr_alt untouched_def settings_def Let_def)
qed

lemma addOneTempVar_settings: "settings (addOneTempVar VDI D) = settings D"
  by (cases VDI) (simp add: addOneTempVar_def settings_def split: option.splits)

lemma VisitDeclStmt_settings: "settings (VisitDeclStmt DS D) = settings D"
  by (simp add: VisitDeclStmt_def fold_keeps[where f = settings, OF addOneTempVar_settings]
        split: Kind.splits)

lemma noteFunction_settings: "settings (noteFunction FD D) = settings D"
  by (simp add: noteFunction_def settings_def)

lemma registerTempVars_settings: "settings (registerTempVars FD D) = settings D"
  unfolding registerTempVars_def
  by (simp add: fold_keeps[where f = settings, OF VisitDeclStmt_settings] noteFunction_settings)

lemma VisitFunctionDecl_settings: "settings (VisitFunctionDecl walk FD D) = settings D"
proof -
  have b: "\<And>D. settings (fold (VisitExpr FD) (walk FD) D) = settings D"
    by (rule fold_keeps) (rule VisitExpr_settings)
  have c: "\<And>D u p. settings (D\<lparr>UniqueExprs := u, ProcessedExprs := p\<rparr>) = settings D"
    by (simp add: settings_def)
  show ?thesis
    by (simp add: VisitFunctionDecl_def b c noteFunction_settings registerTempVars_settings)
qed

lemma HandleTopLevelDecl_settings: "settings (HandleTopLevelDecl cxx walk DG D) = settings D"
proof (cases cxx)
  case True
  then show ?thesis by (simp add: HandleTopLevelDecl_def settings_def)
next
  case False
  then show ?thesis
    by (simp add: HandleTopLevelDecl_def fold_keeps[where f = settings, OF VisitFunctionDecl_settings])
qed

lemma InclusionDirective_settings: "settings (InclusionDirective inc D) = settings D"
  by (cases inc) (simp add: InclusionDirective_def settings_def)

lemma collect_settings: "settings (collect walk P opts) = settings (Initialize (construct opts))"
proof -
  have "settings (collect walk P opts)
        = settings (fold InclusionDirective (inclusionDirectives P) (Initialize (construct opts)))"
    unfolding collect_def by (rule fold_keeps) (rule HandleTopLevelDecl_settings)
  also have "\<dots> = settings (Initialize (construct opts))"
    by (rule fold_keeps) (rule InclusionDirective_settings)
  finally show ?thesis .
qed

lemma collect_options:
  "TransformationCounter (collect walk P opts) = optCounter opts"
  "QueryInstanceOnly (collect walk P opts) = optQueryInstanceOnly opts"
  "Edits (collect walk P opts) = []"
  "TransError (collect walk P opts) = TransSuccess"
  using collect_settings[of walk P opts]
  by (simp_all add: settings_def Initialize_def construct_def)

lemma CXX_keeps_zero:
  "ValidInstanceNum D = 0 \<Longrightarrow> ValidInstanceNum (fold (HandleTopLevelDecl True walk) DGs D) = 0"
  by (induction DGs arbitrary: D) (simp_all add: HandleTopLevelDecl_def)

lemma collect_CXX: "isCXXLangOpt P \<Longrightarrow> ValidInstanceNum (collect walk P opts) = 0"
proof -
  assume cxx: "isCXXLangOpt P"
  have "\<And>inc D. ValidInstanceNum (InclusionDirective inc D) = ValidInstanceNum D"
    by (simp add: InclusionDirective_def split: prod.splits)
  then have "ValidInstanceNum (fold InclusionDirective (inclusionDirectives P)
                  (Initialize (construct opts))) = ValidInstanceNum (Initialize (construct opts))"
    by (rule fold_keeps)
  then have "ValidInstanceNum (fold InclusionDirective (inclusionDirectives P)
                  (Initialize (construct opts))) = 0"
    by (simp add: Initialize_def construct_def)
  then show ?thesis using cxx by (simp add: collect_def CXX_keeps_zero)
qed

section \<open>A requested instance beyond the candidates\<close>

text \<open>
  C6. When the run is asked to transform (it is not a run that only counts instances)
  and the requested instance exceeds the number of candidates counted, the run ends
  with the max-instance error and has requested no edit. A C++ program counts zero
  candidates. A run that only counts instances returns before the comparison, whatever
  the requested instance: it requests no edit and reports no error.
\<close>

theorem out_of_range_reports_max_instance:
  "(\<not> optQueryInstanceOnly opts \<and> ValidInstanceNum (collect walk P opts) < optCounter opts \<longrightarrow>
      (\<exists>D. runPass walk query err P opts = Inr D \<and> TransError D = TransMaxInstanceError \<and>
           Edits D = [])) \<and>
   (isCXXLangOpt P \<longrightarrow> ValidInstanceNum (collect walk P opts) = 0) \<and>
   (optQueryInstanceOnly opts \<longrightarrow>
      (\<exists>D. runPass walk query err P opts = Inr D \<and> TransError D = TransSuccess \<and>
           Edits D = []))"
  by (simp add: runPass_def HandleTranslationUnit_def collect_options collect_CXX)

theorem out_of_range_reports_max_instance_witness:
  "\<not> optQueryInstanceOnly exLateOpts \<and>
   ValidInstanceNum (collect preorderWalk exProgram exLateOpts) < optCounter exLateOpts \<and>
   (\<exists>D. runPass preorderWalk exQuery False exProgram exLateOpts = Inr D \<and>
        TransError D = TransMaxInstanceError \<and> Edits D = []) \<and>
   isCXXLangOpt exCXXProgram \<and>
   ValidInstanceNum (collect preorderWalk exCXXProgram exLateOpts) = 0 \<and>
   (\<exists>D. runPass preorderWalk exQuery False exCXXProgram exLateOpts = Inr D \<and>
        TransError D = TransMaxInstanceError \<and> Edits D = []) \<and>
   optQueryInstanceOnly exQueryOpts \<and>
   (\<exists>D. runPass preorderWalk exQuery False exProgram exQueryOpts = Inr D \<and>
        TransError D = TransSuccess \<and> Edits D = [])"
proof -
  have a: "ValidInstanceNum (collect preorderWalk exProgram exLateOpts) = 3"
    by (simp add: example_defs filter_defs run_defs isIdenticalExpr.simps(4) identicalPayload_def)
  have b: "\<not> optQueryInstanceOnly exLateOpts \<and> optCounter exLateOpts = 7"
    by (simp add: exLateOpts_def)
  have c: "isCXXLangOpt exCXXProgram" by (simp add: exCXXProgram_def)
  have d: "optQueryInstanceOnly exQueryOpts" by (simp add: exQueryOpts_def)
  show ?thesis
    using out_of_range_reports_max_instance[of exLateOpts preorderWalk exProgram exQuery False]
          out_of_range_reports_max_instance[of exLateOpts preorderWalk exCXXProgram exQuery False]
          out_of_range_reports_max_instance[of exQueryOpts preorderWalk exProgram exQuery False]
          a b c d
    by simp
qed

theorem query_only_reports_no_error:
  "optQueryInstanceOnly exQueryOpts \<and>
   ValidInstanceNum (collect preorderWalk exProgram exQueryOpts) < optCounter exQueryOpts \<and>
   (case runPass preorderWalk exQuery False exProgram exQueryOpts of
      Inl f \<Rightarrow> False
    | Inr D \<Rightarrow> TransError D = TransSuccess \<and> TransError D \<noteq> TransMaxInstanceError \<and>
               Edits D = [])"
proof -
  have "ValidInstanceNum (collect preorderWalk exProgram exQueryOpts) = 3"
    by (simp add: example_defs filter_defs run_defs isIdenticalExpr.simps(4) identicalPayload_def)
  then show ?thesis
    by (simp add: runPass_def HandleTranslationUnit_def collect_options exQueryOpts_def)
qed

section \<open>Counting the accepted candidates\<close>

lemma logFold_append:
  "logFold lg step (xs @ ys) s = logFold lg step xs s @ logFold lg step ys (fold step xs s)"
  by (induction xs arbitrary: s) simp_all

lemma counts_fold:
  assumes "counts lg step"
  shows "counts (logFold lg step) (fold step)"
  unfolding counts_def
proof (intro allI)
  fix xs D
  show "TransformationCounter (fold step xs D) = TransformationCounter D \<and>
        ValidInstanceNum (fold step xs D) = ValidInstanceNum D + int (length (logFold lg step xs D)) \<and>
        latched (fold step xs D) =
          (if ValidInstanceNum D < TransformationCounter D \<and>
              TransformationCounter D \<le> ValidInstanceNum D + int (length (logFold lg step xs D))
           then latchOf (logFold lg step xs D ! nat (TransformationCounter D - ValidInstanceNum D - 1))
           else latched D)"
  proof (induction xs arbitrary: D)
    case Nil
    show ?case by auto
  next
    case (Cons x xs)
    let ?D = "step x D"
    let ?l1 = "lg x D"
    let ?l2 = "logFold lg step xs ?D"
    have s1: "TransformationCounter ?D = TransformationCounter D"
      and s2: "ValidInstanceNum ?D = ValidInstanceNum D + int (length ?l1)"
      and s3: "latched ?D =
              (if ValidInstanceNum D < TransformationCounter D \<and>
                  TransformationCounter D \<le> ValidInstanceNum D + int (length ?l1)
               then latchOf (?l1 ! nat (TransformationCounter D - ValidInstanceNum D - 1))
               else latched D)"
      using assms unfolding counts_def by blast+
    note ih = Cons.IH[of ?D]
    have t1: "TransformationCounter (fold step (x # xs) D) = TransformationCounter D"
      using ih s1 by simp
    have t2: "ValidInstanceNum (fold step (x # xs) D)
              = ValidInstanceNum D + int (length (logFold lg step (x # xs) D))"
      using ih s2 by simp
    have t3: "latched (fold step (x # xs) D) =
          (if ValidInstanceNum D < TransformationCounter D \<and>
              TransformationCounter D \<le> ValidInstanceNum D + int (length (logFold lg step (x # xs) D))
           then latchOf (logFold lg step (x # xs) D ! nat (TransformationCounter D - ValidInstanceNum D - 1))
           else latched D)"
    proof -
      let ?n = "TransformationCounter D" and ?v = "ValidInstanceNum D"
      have l: "latched (fold step (x # xs) D) =
          (if ValidInstanceNum ?D < ?n \<and> ?n \<le> ValidInstanceNum ?D + int (length ?l2)
           then latchOf (?l2 ! nat (?n - ValidInstanceNum ?D - 1))
           else latched ?D)"
        using ih s1 by simp
      consider (a) "?n \<le> ?v" | (b) "?v < ?n" "?n \<le> ?v + int (length ?l1)"
        | (c) "?v + int (length ?l1) < ?n" "?n \<le> ?v + int (length ?l1) + int (length ?l2)"
        | (d) "?v + int (length ?l1) + int (length ?l2) < ?n"
        by linarith
      then show ?thesis
      proof cases
        case a
        then show ?thesis using l s2 s3 by simp
      next
        case b
        then have "nat (?n - ?v - 1) < length ?l1" by linarith
        then have "(?l1 @ ?l2) ! nat (?n - ?v - 1) = ?l1 ! nat (?n - ?v - 1)"
          by (simp add: nth_append)
        then show ?thesis using b l s2 s3 by simp
      next
        case c
        then have ge: "length ?l1 \<le> nat (?n - ?v - 1)" by linarith
        have "nat (?n - ?v - 1) - length ?l1 = nat (?n - ValidInstanceNum ?D - 1)"
          using c s2 by linarith
        then have "(?l1 @ ?l2) ! nat (?n - ?v - 1) = ?l2 ! nat (?n - ValidInstanceNum ?D - 1)"
          using ge by (simp add: nth_append)
        then show ?thesis using c l s2 s3 by simp
      next
        case d
        then show ?thesis using l s2 s3 by simp
      qed
    qed
    from t1 t2 t3 show ?case by blast
  qed
qed

lemma latched_upd [simp]:
  "latched (D\<lparr>ValidInstanceNum := v\<rparr>) = latched D"
  "latched (D\<lparr>UniqueExprs := u\<rparr>) = latched D"
  "latched (D\<lparr>ProcessedExprs := p\<rparr>) = latched D"
  "latched (D\<lparr>HFInfo := h\<rparr>) = latched D"
  by (simp_all add: latched_def)

lemma untouched_selection:
  "untouched D' = untouched D \<Longrightarrow>
   TransformationCounter D' = TransformationCounter D \<and> ValidInstanceNum D' = ValidInstanceNum D \<and>
   latched D' = latched D"
  by (simp add: untouched_def latched_def)

lemma counts_VisitExpr: "counts (acceptedAt F) (VisitExpr F)"
  unfolding counts_def
proof (intro allI)
  fix SE D
  have u: "untouched (snd (isValidExpr (fst SE) (snd SE) D)) = untouched D"
    by (rule isValidExpr_untouched)
  show "TransformationCounter (VisitExpr F SE D) = TransformationCounter D \<and>
        ValidInstanceNum (VisitExpr F SE D) = ValidInstanceNum D + int (length (acceptedAt F SE D)) \<and>
        latched (VisitExpr F SE D) =
          (if ValidInstanceNum D < TransformationCounter D \<and>
              TransformationCounter D \<le> ValidInstanceNum D + int (length (acceptedAt F SE D))
           then latchOf (acceptedAt F SE D ! nat (TransformationCounter D - ValidInstanceNum D - 1))
           else latched D)"
    using untouched_selection[OF u]
    by (auto simp: VisitExpr_alt acceptedAt_def Let_def latched_def latchOf_def)
qed

lemma selection_keeps:
  assumes "\<And>x s. TransformationCounter (step x s) = TransformationCounter s \<and>
                  ValidInstanceNum (step x s) = ValidInstanceNum s \<and> latched (step x s) = latched s"
  shows "TransformationCounter (fold step xs s) = TransformationCounter s \<and>
         ValidInstanceNum (fold step xs s) = ValidInstanceNum s \<and>
         latched (fold step xs s) = latched s"
  using assms by (induction xs arbitrary: s) simp_all

lemma addOneTempVar_selection:
  "TransformationCounter (addOneTempVar VDI D) = TransformationCounter D \<and>
   ValidInstanceNum (addOneTempVar VDI D) = ValidInstanceNum D \<and>
   latched (addOneTempVar VDI D) = latched D"
  by (cases VDI) (simp add: addOneTempVar_def split: option.splits)

lemma VisitDeclStmt_selection:
  "TransformationCounter (VisitDeclStmt DS D) = TransformationCounter D \<and>
   ValidInstanceNum (VisitDeclStmt DS D) = ValidInstanceNum D \<and>
   latched (VisitDeclStmt DS D) = latched D"
proof (cases "kind (info DS)")
  case (DeclStmt decls)
  then show ?thesis
    using selection_keeps[of addOneTempVar "zip decls (children DS)" D, OF addOneTempVar_selection]
    by (simp add: VisitDeclStmt_def)
qed (simp_all add: VisitDeclStmt_def)

lemma registerTempVars_selection:
  "TransformationCounter (registerTempVars FD D) = TransformationCounter D \<and>
   ValidInstanceNum (registerTempVars FD D) = ValidInstanceNum D \<and>
   latched (registerTempVars FD D) = latched D"
proof -
  have "TransformationCounter (noteFunction FD D) = TransformationCounter D \<and>
        ValidInstanceNum (noteFunction FD D) = ValidInstanceNum D \<and>
        latched (noteFunction FD D) = latched D"
    by (simp add: noteFunction_def)
  then show ?thesis
    using selection_keeps[of VisitDeclStmt "declStmtsOf FD" "noteFunction FD D",
            OF VisitDeclStmt_selection]
    by (simp add: registerTempVars_def)
qed

lemma counts_VisitFunctionDecl: "counts (candidatesOfFunction walk) (VisitFunctionDecl walk)"
  unfolding counts_def
proof (intro allI)
  fix FD D
  let ?goal = "TransformationCounter (VisitFunctionDecl walk FD D) = TransformationCounter D \<and>
        ValidInstanceNum (VisitFunctionDecl walk FD D)
          = ValidInstanceNum D + int (length (candidatesOfFunction walk FD D)) \<and>
        latched (VisitFunctionDecl walk FD D) =
          (if ValidInstanceNum D < TransformationCounter D \<and>
              TransformationCounter D \<le> ValidInstanceNum D + int (length (candidatesOfFunction walk FD D))
           then latchOf (candidatesOfFunction walk FD D ! nat (TransformationCounter D - ValidInstanceNum D - 1))
           else latched D)"
  show ?goal
  proof (cases "isSkipped FD")
    case True
    then show ?thesis
      by (auto simp add: VisitFunctionDecl_def candidatesOfFunction_def noteFunction_def)
  next
    case False
    have c: "counts (logFold (acceptedAt FD) (VisitExpr FD)) (fold (VisitExpr FD))"
      by (rule counts_fold) (rule counts_VisitExpr)
    show ?thesis
      using False c[unfolded counts_def, rule_format, of "walk FD" "registerTempVars FD D"]
            registerTempVars_selection[of FD D]
      by (simp add: VisitFunctionDecl_def candidatesOfFunction_def)
  qed
qed

lemma counts_HandleTopLevelDecl:
  "counts (candidatesOfGroup False walk) (HandleTopLevelDecl False walk)"
proof -
  have "counts (logFold (candidatesOfFunction walk) (VisitFunctionDecl walk))
               (fold (VisitFunctionDecl walk))"
    by (rule counts_fold) (rule counts_VisitFunctionDecl)
  then show ?thesis
    by (simp add: counts_def candidatesOfGroup_def HandleTopLevelDecl_def)
qed

lemma start_selection:
  "TransformationCounter (fold InclusionDirective incs (Initialize (construct opts))) = optCounter opts \<and>
   ValidInstanceNum (fold InclusionDirective incs (Initialize (construct opts))) = 0 \<and>
   latched (fold InclusionDirective incs (Initialize (construct opts))) = (None, None, None)"
proof -
  have "\<And>inc D. TransformationCounter (InclusionDirective inc D) = TransformationCounter D \<and>
                 ValidInstanceNum (InclusionDirective inc D) = ValidInstanceNum D \<and>
                 latched (InclusionDirective inc D) = latched D"
    by (simp add: InclusionDirective_def split: prod.splits)
  from selection_keeps[of InclusionDirective incs "Initialize (construct opts)", OF this]
  show ?thesis by (simp add: Initialize_def construct_def latched_def)
qed

lemma collect_counts:
  assumes "\<not> isCXXLangOpt P"
  shows "ValidInstanceNum (collect walk P opts) = int (length (candidates walk P opts))"
    and "latched (collect walk P opts) =
          (if 1 \<le> optCounter opts \<and> optCounter opts \<le> int (length (candidates walk P opts))
           then latchOf (candidates walk P opts ! nat (optCounter opts - 1))
           else (None, None, None))"
proof -
  let ?D0 = "fold InclusionDirective (inclusionDirectives P) (Initialize (construct opts))"
  have "counts (logFold (candidatesOfGroup False walk) (HandleTopLevelDecl False walk))
               (fold (HandleTopLevelDecl False walk))"
    by (rule counts_fold) (rule counts_HandleTopLevelDecl)
  note c = this[unfolded counts_def, rule_format, of "topLevelDecls P" ?D0]
  have s: "TransformationCounter ?D0 = optCounter opts" "ValidInstanceNum ?D0 = 0"
          "latched ?D0 = (None, None, None)"
    using start_selection[of "inclusionDirectives P" opts] by simp_all
  show "ValidInstanceNum (collect walk P opts) = int (length (candidates walk P opts))"
    using c s assms by (simp add: collect_def candidates_def)
  have "(0 < optCounter opts) = (1 \<le> optCounter opts)" by linarith
  then show "latched (collect walk P opts) =
          (if 1 \<le> optCounter opts \<and> optCounter opts \<le> int (length (candidates walk P opts))
           then latchOf (candidates walk P opts ! nat (optCounter opts - 1))
           else (None, None, None))"
    using c s assms by (simp add: collect_def candidates_def)
qed

lemma logFold_nothing: "(\<And>x s. lg x s = []) \<Longrightarrow> logFold lg step xs s = []"
  by (induction xs arbitrary: s) simp_all

lemma collect_counts_CXX:
  assumes "isCXXLangOpt P"
  shows "candidates walk P opts = []"
    and "latched (collect walk P opts) = (None, None, None)"
proof -
  show "candidates walk P opts = []"
    using assms by (simp add: candidates_def candidatesOfGroup_def logFold_nothing)
  let ?D0 = "fold InclusionDirective (inclusionDirectives P) (Initialize (construct opts))"
  have "\<And>DG D. TransformationCounter (HandleTopLevelDecl True walk DG D) = TransformationCounter D \<and>
                ValidInstanceNum (HandleTopLevelDecl True walk DG D) = ValidInstanceNum (D\<lparr>ValidInstanceNum := 0\<rparr>) \<and>
                latched (HandleTopLevelDecl True walk DG D) = latched D"
    by (simp add: HandleTopLevelDecl_def)
  then have "\<And>DGs D. latched (fold (HandleTopLevelDecl True walk) DGs D) = latched D"
  proof -
    fix DGs D
    show "latched (fold (HandleTopLevelDecl True walk) DGs D) = latched D"
      by (induction DGs arbitrary: D) (simp_all add: HandleTopLevelDecl_def)
  qed
  then show "latched (collect walk P opts) = (None, None, None)"
    using assms start_selection[of "inclusionDirectives P" opts] by (simp add: collect_def)
qed

section \<open>What the filter reads\<close>

lemma logFold_related:
  assumes "\<And>x s t. x \<in> set xs \<Longrightarrow> R s t \<Longrightarrow> lg x s = lg x t \<and> R (step x s) (step x t)"
    and "R s t"
  shows "logFold lg step xs s = logFold lg step xs t \<and> R (fold step xs s) (fold step xs t)"
  using assms
proof (induction xs arbitrary: s t)
  case Nil
  then show ?case by simp
next
  case (Cons x xs)
  have h: "lg x s = lg x t \<and> R (step x s) (step x t)"
    using Cons.prems(1)[of x s t] Cons.prems(2) by simp
  have "logFold lg step xs (step x s) = logFold lg step xs (step x t) \<and>
        R (fold step xs (step x s)) (fold step xs (step x t))"
    using Cons.IH[of "step x s" "step x t"] Cons.prems(1) h by simp
  with h show ?case by simp
qed

lemma sameCaches_refl: "sameCaches K D D"
  by (simp add: sameCaches_def)

lemma hasIdenticalExpr_cong:
  "ProcessedExprs D = ProcessedExprs D' \<Longrightarrow> hasIdenticalExpr D V E = hasIdenticalExpr D' V E"
  by (simp add: hasIdenticalExpr_def)

lemma checkTmpVars_sameCaches:
  assumes "sameCaches K D D'" "ptr S \<in> K"
  shows "fst (checkTmpVars S E D) = fst (checkTmpVars S E D') \<and>
         sameCaches K (snd (checkTmpVars S E D)) (snd (checkTmpVars S E D'))"
proof -
  have p: "ProcessedExprs D = ProcessedExprs D'" and t: "TmpVarsInStmt D (ptr S) = TmpVarsInStmt D' (ptr S)"
    using assms by (simp_all add: sameCaches_def)
  show ?thesis
  proof (cases "TmpVarsInStmt D (ptr S)")
    case None
    then show ?thesis
      using assms t p
      by (simp add: checkTmpVars_def Let_def sameCaches_def hasIdenticalExpr_def)
  next
    case (Some V)
    then show ?thesis
      using assms t p
      by (simp add: checkTmpVars_def Let_def hasIdenticalExpr_def)
  qed
qed

lemma checkUnique_sameCaches:
  assumes "sameCaches K D D'" "ptr S \<in> K"
  shows "fst (checkUnique S E D) = fst (checkUnique S E D') \<and>
         sameCaches K (snd (checkUnique S E D)) (snd (checkUnique S E D'))"
proof -
  have u: "UniqueExprs D = UniqueExprs D'" using assms by (simp add: sameCaches_def)
  let ?V = "case UniqueExprs D (ptr S) of None \<Rightarrow> [] | Some V \<Rightarrow> V"
  show ?thesis
  proof (cases "list_ex (\<lambda>I. isIdenticalExpr (Some I) (Some E)) ?V")
    case True
    then show ?thesis using assms u by (simp add: checkUnique_def Let_def sameCaches_def)
  next
    case False
    have "sameCaches K (D\<lparr>UniqueExprs := (UniqueExprs D)(ptr S \<mapsto> ?V @ [E])\<rparr>)
                       (D'\<lparr>UniqueExprs := (UniqueExprs D')(ptr S \<mapsto> ?V @ [E])\<rparr>)"
      using assms u by (simp add: sameCaches_def)
    from checkTmpVars_sameCaches[OF this assms(2), of E] False u
    show ?thesis by (simp add: checkUnique_def Let_def)
  qed
qed

lemma checkInvalid_sameCaches:
  assumes "sameCaches K D D'" "ptr S \<in> K"
  shows "fst (checkInvalid S E D) = fst (checkInvalid S E D') \<and>
         sameCaches K (snd (checkInvalid S E D)) (snd (checkInvalid S E D'))"
proof -
  have i: "InvalidExprsInUOBO D (ptr S) = InvalidExprsInUOBO D' (ptr S)"
    using assms by (simp add: sameCaches_def)
  show ?thesis
  proof (cases "InvalidExprsInUOBO D (ptr S)")
    case None
    let ?m = "LocalUOBOVisitor S"
    have sc: "sameCaches K (D\<lparr>InvalidExprsInUOBO := (InvalidExprsInUOBO D)(ptr S \<mapsto> ?m)\<rparr>)
                       (D'\<lparr>InvalidExprsInUOBO := (InvalidExprsInUOBO D')(ptr S \<mapsto> ?m)\<rparr>)"
      using assms by (simp add: sameCaches_def)
    show ?thesis
      using None i sc checkUnique_sameCaches[OF sc assms(2), of E]
      by (simp add: checkInvalid_def Let_def)
  next
    case (Some X)
    then show ?thesis
      using i assms checkUnique_sameCaches[OF assms, of E]
      by (simp add: checkInvalid_def Let_def)
  qed
qed

lemma isValidExpr_sameCaches:
  assumes "sameCaches K D D'" "ptr S \<in> K"
  shows "fst (isValidExpr S E D) = fst (isValidExpr S E D') \<and>
         sameCaches K (snd (isValidExpr S E D)) (snd (isValidExpr S E D'))"
  using assms checkInvalid_sameCaches[OF assms, of E]
  by (simp add: isValidExpr_def)

lemma sameCaches_upd:
  "sameCaches K (D\<lparr>ValidInstanceNum := v\<rparr>) D' = sameCaches K D D'"
  "sameCaches K D (D'\<lparr>ValidInstanceNum := v\<rparr>) = sameCaches K D D'"
  "sameCaches K (D\<lparr>ValidInstanceNum := v, TheFunc := f, TheStmt := s, TheExpr := e\<rparr>) D' = sameCaches K D D'"
  "sameCaches K D (D'\<lparr>ValidInstanceNum := v, TheFunc := f, TheStmt := s, TheExpr := e\<rparr>) = sameCaches K D D'"
  "sameCaches K (D\<lparr>HFInfo := h\<rparr>) D' = sameCaches K D D'"
  "sameCaches K D (D'\<lparr>HFInfo := h\<rparr>) = sameCaches K D D'"
  by (simp_all add: sameCaches_def)

lemma VisitExpr_sameCaches:
  assumes "sameCaches K D D'" "ptr (fst SE) \<in> K"
  shows "acceptedAt F SE D = acceptedAt F SE D' \<and>
         sameCaches K (VisitExpr F SE D) (VisitExpr F SE D')"
  using isValidExpr_sameCaches[OF assms, of "snd SE"] assms(1)
  by (simp add: VisitExpr_alt acceptedAt_def accepts_def Let_def sameCaches_upd)

lemma addOneTempVar_sameCaches:
  "sameCaches K D D' \<Longrightarrow> sameCaches K (addOneTempVar VDI D) (addOneTempVar VDI D')"
  by (cases VDI) (simp add: addOneTempVar_def sameCaches_def split: option.splits)

lemma fold_related:
  assumes "\<And>x s t. R s t \<Longrightarrow> R (step x s) (step x t)" and "R s t"
  shows "R (fold step xs s) (fold step xs t)"
  using assms by (induction xs arbitrary: s t) simp_all

lemma VisitDeclStmt_sameCaches:
  "sameCaches K D D' \<Longrightarrow> sameCaches K (VisitDeclStmt DS D) (VisitDeclStmt DS D')"
  by (cases "kind (info DS)")
     (simp_all add: VisitDeclStmt_def fold_related[where R = "sameCaches K", OF addOneTempVar_sameCaches])

lemma registerTempVars_sameCaches:
  assumes "sameCaches K D D'"
  shows "sameCaches K (registerTempVars FD D) (registerTempVars FD D')"
proof -
  have "sameCaches K (noteFunction FD D) (noteFunction FD D')"
    using assms by (simp add: noteFunction_def sameCaches_upd)
  then have "sameCaches K (fold VisitDeclStmt (declStmtsOf FD) (noteFunction FD D))
                          (fold VisitDeclStmt (declStmtsOf FD) (noteFunction FD D'))"
    using fold_related[where R = "sameCaches K" and step = VisitDeclStmt]
          VisitDeclStmt_sameCaches[of K]
    by blast
  then show ?thesis by (simp add: registerTempVars_def)
qed

lemma VisitFunctionDecl_sameCaches:
  assumes "sameCaches K D D'" "ptr ` fst ` set (walk FD) \<subseteq> K"
  shows "candidatesOfFunction walk FD D = candidatesOfFunction walk FD D' \<and>
         sameCaches K (VisitFunctionDecl walk FD D) (VisitFunctionDecl walk FD D')"
proof (cases "isSkipped FD")
  case True
  then show ?thesis
    using assms(1) by (simp add: candidatesOfFunction_def VisitFunctionDecl_def noteFunction_def sameCaches_upd)
next
  case False
  have r: "sameCaches K (registerTempVars FD D) (registerTempVars FD D')"
    using assms(1) by (rule registerTempVars_sameCaches)
  have "logFold (acceptedAt FD) (VisitExpr FD) (walk FD) (registerTempVars FD D)
          = logFold (acceptedAt FD) (VisitExpr FD) (walk FD) (registerTempVars FD D') \<and>
        sameCaches K (fold (VisitExpr FD) (walk FD) (registerTempVars FD D))
                     (fold (VisitExpr FD) (walk FD) (registerTempVars FD D'))"
  proof (rule logFold_related[where R = "sameCaches K"])
    fix x s t
    assume "x \<in> set (walk FD)" "sameCaches K s t"
    then show "acceptedAt FD x s = acceptedAt FD x t \<and> sameCaches K (VisitExpr FD x s) (VisitExpr FD x t)"
      using assms(2) VisitExpr_sameCaches[of K s t x FD] by auto
  qed (rule r)
  then show ?thesis
    using False by (simp add: candidatesOfFunction_def VisitFunctionDecl_def sameCaches_def)
qed

lemma HandleTopLevelDecl_sameCaches:
  assumes "sameCaches UNIV D D'"
  shows "candidatesOfGroup cxx walk DG D = candidatesOfGroup cxx walk DG D' \<and>
         sameCaches UNIV (HandleTopLevelDecl cxx walk DG D) (HandleTopLevelDecl cxx walk DG D')"
proof (cases cxx)
  case True
  then show ?thesis using assms
    by (simp add: candidatesOfGroup_def HandleTopLevelDecl_def sameCaches_upd)
next
  case False
  have "logFold (candidatesOfFunction walk) (VisitFunctionDecl walk) DG D
          = logFold (candidatesOfFunction walk) (VisitFunctionDecl walk) DG D' \<and>
        sameCaches UNIV (fold (VisitFunctionDecl walk) DG D) (fold (VisitFunctionDecl walk) DG D')"
    by (rule logFold_related[where R = "sameCaches UNIV"])
       (use assms VisitFunctionDecl_sameCaches[where K = UNIV] in auto)
  then show ?thesis using False by (simp add: candidatesOfGroup_def HandleTopLevelDecl_def)
qed

lemma candidates_independent: "candidates walk P opts = candidates walk P opts'"
proof -
  let ?s = "\<lambda>ops. fold InclusionDirective (inclusionDirectives P) (Initialize (construct ops))"
  have u: "\<And>D. UniqueExprs (fold InclusionDirective (inclusionDirectives P) D) = UniqueExprs D"
    by (rule fold_keeps) (simp add: InclusionDirective_def split: prod.splits)
  have p: "\<And>D. ProcessedExprs (fold InclusionDirective (inclusionDirectives P) D) = ProcessedExprs D"
    by (rule fold_keeps) (simp add: InclusionDirective_def split: prod.splits)
  have i: "\<And>D. InvalidExprsInUOBO (fold InclusionDirective (inclusionDirectives P) D) = InvalidExprsInUOBO D"
    by (rule fold_keeps) (simp add: InclusionDirective_def split: prod.splits)
  have t: "\<And>D. TmpVarsInStmt (fold InclusionDirective (inclusionDirectives P) D) = TmpVarsInStmt D"
    by (rule fold_keeps) (simp add: InclusionDirective_def split: prod.splits)
  have "sameCaches UNIV (?s opts) (?s opts')"
    by (simp add: sameCaches_def u p i t Initialize_def construct_def)
  then have "logFold (candidatesOfGroup (isCXXLangOpt P) walk) (HandleTopLevelDecl (isCXXLangOpt P) walk)
               (topLevelDecls P) (?s opts)
           = logFold (candidatesOfGroup (isCXXLangOpt P) walk) (HandleTopLevelDecl (isCXXLangOpt P) walk)
               (topLevelDecls P) (?s opts') \<and>
         sameCaches UNIV (fold (HandleTopLevelDecl (isCXXLangOpt P) walk) (topLevelDecls P) (?s opts))
                         (fold (HandleTopLevelDecl (isCXXLangOpt P) walk) (topLevelDecls P) (?s opts'))"
    by (intro logFold_related[where R = "sameCaches UNIV"])
       (use HandleTopLevelDecl_sameCaches in auto)
  then show ?thesis by (simp add: candidates_def)
qed

section \<open>The assignments to the triple\<close>

lemma latchesOnce_quiet:
  assumes "latchesOnce lg step" "TransformationCounter D \<le> ValidInstanceNum D"
  shows "logFold lg step xs D = []"
  using assms(2)
proof (induction xs arbitrary: D)
  case Nil
  show ?case by simp
next
  case (Cons x xs)
  have h: "TransformationCounter (step x D) = TransformationCounter D"
          "ValidInstanceNum D \<le> ValidInstanceNum (step x D)"
          "lg x D \<noteq> [] \<longrightarrow> ValidInstanceNum D < TransformationCounter D"
    using assms(1) unfolding latchesOnce_def by blast+
  have "lg x D = []" using h(3) Cons.prems by auto
  moreover have "logFold lg step xs (step x D) = []"
    using Cons.IH[of "step x D"] h Cons.prems by simp
  ultimately show ?case by simp
qed

lemma latchesOnce_fold:
  assumes "latchesOnce lg step"
  shows "latchesOnce (logFold lg step) (fold step)"
  unfolding latchesOnce_def
proof (intro allI)
  fix xs D
  show "TransformationCounter (fold step xs D) = TransformationCounter D \<and>
        ValidInstanceNum D \<le> ValidInstanceNum (fold step xs D) \<and>
        length (logFold lg step xs D) \<le> 1 \<and>
        (logFold lg step xs D \<noteq> [] \<longrightarrow> ValidInstanceNum D < TransformationCounter D \<and>
            TransformationCounter D \<le> ValidInstanceNum (fold step xs D)) \<and>
        latched (fold step xs D) =
          (case logFold lg step xs D of [] \<Rightarrow> latched D | c # cs \<Rightarrow> latchOf c)"
  proof (induction xs arbitrary: D)
    case Nil
    show ?case by simp
  next
    case (Cons x xs)
    let ?D = "step x D"
    have h: "TransformationCounter ?D = TransformationCounter D"
            "ValidInstanceNum D \<le> ValidInstanceNum ?D"
            "length (lg x D) \<le> 1"
            "lg x D \<noteq> [] \<longrightarrow> ValidInstanceNum D < TransformationCounter D \<and>
                              TransformationCounter D \<le> ValidInstanceNum ?D"
            "latched ?D = (case lg x D of [] \<Rightarrow> latched D | c # cs \<Rightarrow> latchOf c)"
      using assms unfolding latchesOnce_def by blast+
    note ih = Cons.IH[of ?D]
    show ?case
    proof (cases "lg x D")
      case Nil
      then show ?thesis using h ih by (auto split: list.splits)
    next
      case (Cons c cs)
      then have q: "logFold lg step xs ?D = []"
        using latchesOnce_quiet[OF assms, of ?D xs] h by simp
      have "cs = []" using h(3) Cons by simp
      then show ?thesis using h ih q Cons by auto
    qed
  qed
qed

lemma latchesOnce_VisitExpr: "latchesOnce (latchedAt F) (VisitExpr F)"
  unfolding latchesOnce_def
proof (intro allI)
  fix SE D
  have u: "untouched (snd (isValidExpr (fst SE) (snd SE) D)) = untouched D"
    by (rule isValidExpr_untouched)
  show "TransformationCounter (VisitExpr F SE D) = TransformationCounter D \<and>
        ValidInstanceNum D \<le> ValidInstanceNum (VisitExpr F SE D) \<and>
        length (latchedAt F SE D) \<le> 1 \<and>
        (latchedAt F SE D \<noteq> [] \<longrightarrow> ValidInstanceNum D < TransformationCounter D \<and>
            TransformationCounter D \<le> ValidInstanceNum (VisitExpr F SE D)) \<and>
        latched (VisitExpr F SE D) =
          (case latchedAt F SE D of [] \<Rightarrow> latched D | c # cs \<Rightarrow> latchOf c)"
    using untouched_selection[OF u]
    by (auto simp: VisitExpr_alt latchedAt_def Let_def latched_def latchOf_def)
qed

lemma latchesOnce_VisitFunctionDecl: "latchesOnce (latchesOfFunction walk) (VisitFunctionDecl walk)"
  unfolding latchesOnce_def
proof (intro allI)
  fix FD D
  show "TransformationCounter (VisitFunctionDecl walk FD D) = TransformationCounter D \<and>
        ValidInstanceNum D \<le> ValidInstanceNum (VisitFunctionDecl walk FD D) \<and>
        length (latchesOfFunction walk FD D) \<le> 1 \<and>
        (latchesOfFunction walk FD D \<noteq> [] \<longrightarrow> ValidInstanceNum D < TransformationCounter D \<and>
            TransformationCounter D \<le> ValidInstanceNum (VisitFunctionDecl walk FD D)) \<and>
        latched (VisitFunctionDecl walk FD D) =
          (case latchesOfFunction walk FD D of [] \<Rightarrow> latched D | c # cs \<Rightarrow> latchOf c)"
  proof (cases "isSkipped FD")
    case True
    then show ?thesis
      by (auto simp add: VisitFunctionDecl_def latchesOfFunction_def noteFunction_def)
  next
    case False
    have c: "latchesOnce (logFold (latchedAt FD) (VisitExpr FD)) (fold (VisitExpr FD))"
      by (rule latchesOnce_fold) (rule latchesOnce_VisitExpr)
    show ?thesis
      using False c[unfolded latchesOnce_def, rule_format, where x = "walk FD" and D = "registerTempVars FD D"]
            registerTempVars_selection[of FD D]
      by (simp add: VisitFunctionDecl_def latchesOfFunction_def split: list.splits)
  qed
qed

lemma latchesOnce_HandleTopLevelDecl:
  "latchesOnce (latchesOfGroup False walk) (HandleTopLevelDecl False walk)"
proof -
  have "latchesOnce (logFold (latchesOfFunction walk) (VisitFunctionDecl walk))
               (fold (VisitFunctionDecl walk))"
    by (rule latchesOnce_fold) (rule latchesOnce_VisitFunctionDecl)
  then show ?thesis
    by (simp add: latchesOnce_def latchesOfGroup_def HandleTopLevelDecl_def)
qed

lemma collect_latches:
  "length (latches walk P opts) \<le> 1 \<and>
   latched (collect walk P opts) =
     (case latches walk P opts of [] \<Rightarrow> (None, None, None) | c # cs \<Rightarrow> latchOf c)"
proof (cases "isCXXLangOpt P")
  case True
  then have "latches walk P opts = []"
    by (simp add: latches_def latchesOfGroup_def logFold_nothing)
  then show ?thesis using collect_counts_CXX(2)[OF True, of walk opts] by simp
next
  case False
  let ?D0 = "fold InclusionDirective (inclusionDirectives P) (Initialize (construct opts))"
  have "latchesOnce (logFold (latchesOfGroup False walk) (HandleTopLevelDecl False walk))
               (fold (HandleTopLevelDecl False walk))"
    by (rule latchesOnce_fold) (rule latchesOnce_HandleTopLevelDecl)
  note c = this[unfolded latchesOnce_def, rule_format, where x = "topLevelDecls P" and D = ?D0]
  show ?thesis
    using c False start_selection[of "inclusionDirectives P" opts]
    by (simp add: collect_def latches_def split: list.splits)
qed

section \<open>The text the emitter writes\<close>




section \<open>Accepted types and the format string\<close>







section \<open>The requested instance selects one candidate\<close>

text \<open>
  C1. For every program, every order in which the walker hands the expressions to
  \<open>VisitExpr\<close> (the pre-order walk is one) and all options: the counter at the end
  of the walk is the number of accepted candidates, so the candidates carry the ordinals
  1 to K in the order of the walk; the latched triple is the candidate whose ordinal is
  the requested instance, and no triple is latched when the requested instance is not
  among 1 to K; the list of candidates does not depend on the options, the requested
  instance among them; and one call of \<open>VisitExpr\<close> raises the counter by one when it
  accepts and not at all otherwise. A run is a function of the program and the options, so two runs
  with the same requested instance latch the same triple, namely the one this theorem
  names.
\<close>

theorem candidates_receive_ordinals:
  "ValidInstanceNum (collect walk P opts) = int (length (candidates walk P opts)) \<and>
   latched (collect walk P opts) =
     (if 1 \<le> optCounter opts \<and> optCounter opts \<le> int (length (candidates walk P opts))
      then latchOf (candidates walk P opts ! nat (optCounter opts - 1))
      else (None, None, None)) \<and>
   candidates walk P opts' = candidates walk P opts \<and>
   ValidInstanceNum (VisitExpr F SE D) = ValidInstanceNum D + int (length (acceptedAt F SE D)) \<and>
   length (acceptedAt F SE D) \<le> 1"
proof (cases "isCXXLangOpt P")
  case True
  show ?thesis
    using collect_counts_CXX[OF True, of walk opts] collect_CXX[OF True, of walk opts]
          candidates_independent[of walk P opts' opts]
          counts_VisitExpr[unfolded counts_def, rule_format, where x = SE and D = D and F = F]
    by (auto simp: acceptedAt_def)
next
  case False
  show ?thesis
    using collect_counts[OF False, of walk opts] candidates_independent[of walk P opts' opts]
          counts_VisitExpr[unfolded counts_def, rule_format, where x = SE and D = D and F = F]
    by (simp add: acceptedAt_def)
qed

theorem candidates_receive_ordinals_witness:
  "candidates preorderWalk exProgram exPrintOpts
     = [(exF, exSumRet, exSum), (exF, exSumRet, exRef 12 (exVar 101 ''a'')),
        (exF, exSumRet, exRef 14 (exVar 102 ''b''))] \<and>
   ValidInstanceNum (collect preorderWalk exProgram exPrintOpts) = 3 \<and>
   latched (collect preorderWalk exProgram exPrintOpts) = latchOf (exF, exSumRet, exSum) \<and>
   candidates preorderWalk exProgram exLateOpts = candidates preorderWalk exProgram exPrintOpts"
proof -
  have c: "candidates preorderWalk exProgram exPrintOpts
     = [(exF, exSumRet, exSum), (exF, exSumRet, exRef 12 (exVar 101 ''a'')),
        (exF, exSumRet, exRef 14 (exVar 102 ''b''))]"
    by (simp add: example_defs filter_defs run_defs log_defs isIdenticalExpr.simps(4)
          identicalPayload_def)
  have n: "optCounter exPrintOpts = 1" by (simp add: exPrintOpts_def)
  show ?thesis
    using candidates_receive_ordinals
            [of preorderWalk exProgram exPrintOpts exLateOpts exF "(exSumRet, exSum)"
                "Initialize (construct exPrintOpts)"] c n
    by simp
qed

section \<open>The triple is latched at most once\<close>

text \<open>
  C9. In a run the assignment to the triple is executed at most once, and the triple at
  the end of the walk is the one then assigned (none when it never was). One call of
  \<open>VisitExpr\<close> raises the counter by one exactly when it accepts, and assigns the
  triple exactly when it accepts and the raised counter equals the requested instance.
  From a state whose counter has reached the requested instance, no sequence of calls of
  \<open>VisitExpr\<close>, no visit of a function and no group of top-level declarations changes
  the triple.
\<close>

theorem triple_latched_at_most_once:
  "length (latches walk P opts) \<le> 1 \<and>
   latched (collect walk P opts) =
     (case latches walk P opts of [] \<Rightarrow> (None, None, None) | c # cs \<Rightarrow> latchOf c) \<and>
   ValidInstanceNum (VisitExpr F SE D)
     = (if accepts SE D then ValidInstanceNum D + 1 else ValidInstanceNum D) \<and>
   latched (VisitExpr F SE D)
     = (if accepts SE D \<and> ValidInstanceNum D + 1 = TransformationCounter D
        then latchOf (F, fst SE, snd SE) else latched D) \<and>
   (TransformationCounter D \<le> ValidInstanceNum D \<longrightarrow>
      latched (fold (VisitExpr F) evs D) = latched D \<and>
      latched (VisitFunctionDecl walk FD D) = latched D \<and>
      latched (HandleTopLevelDecl False walk DG D) = latched D)"
proof -
  have u: "untouched (snd (isValidExpr (fst SE) (snd SE) D)) = untouched D"
    by (rule isValidExpr_untouched)
  have a: "ValidInstanceNum (VisitExpr F SE D)
     = (if accepts SE D then ValidInstanceNum D + 1 else ValidInstanceNum D)"
    using untouched_selection[OF u] by (simp add: VisitExpr_alt Let_def)
  have b: "latched (VisitExpr F SE D)
     = (if accepts SE D \<and> ValidInstanceNum D + 1 = TransformationCounter D
        then latchOf (F, fst SE, snd SE) else latched D)"
    using untouched_selection[OF u] by (simp add: VisitExpr_alt Let_def latched_def latchOf_def)
  have c: "latched (fold (VisitExpr F) evs D) = latched D \<and>
      latched (VisitFunctionDecl walk FD D) = latched D \<and>
      latched (HandleTopLevelDecl False walk DG D) = latched D"
    if q: "TransformationCounter D \<le> ValidInstanceNum D"
  proof -
    have l1: "latchesOnce (logFold (latchedAt F) (VisitExpr F)) (fold (VisitExpr F))"
      by (rule latchesOnce_fold) (rule latchesOnce_VisitExpr)
    have e1: "logFold (latchedAt F) (VisitExpr F) evs D = []"
      using l1[unfolded latchesOnce_def, rule_format, where x = evs and D = D] q by auto
    have e2: "latchesOfFunction walk FD D = []"
      using latchesOnce_VisitFunctionDecl[unfolded latchesOnce_def, rule_format, where x = FD and D = D and walk = walk] q by auto
    have e3: "latchesOfGroup False walk DG D = []"
      using latchesOnce_HandleTopLevelDecl[unfolded latchesOnce_def, rule_format, where x = DG and D = D and walk = walk] q by auto
    show ?thesis
      using l1[unfolded latchesOnce_def, rule_format, where x = evs and D = D] e1
            latchesOnce_VisitFunctionDecl[unfolded latchesOnce_def, rule_format, where x = FD and D = D and walk = walk] e2
            latchesOnce_HandleTopLevelDecl[unfolded latchesOnce_def, rule_format, where x = DG and D = D and walk = walk] e3
      by simp
  qed
  show ?thesis using collect_latches[of walk P opts] a b c by blast
qed

theorem triple_latched_at_most_once_witness:
  "latches preorderWalk exProgram exPrintOpts = [(exF, exSumRet, exSum)] \<and>
   latched (collect preorderWalk exProgram exPrintOpts) = latchOf (exF, exSumRet, exSum) \<and>
   TransformationCounter (collect preorderWalk exProgram exPrintOpts)
     \<le> ValidInstanceNum (collect preorderWalk exProgram exPrintOpts) \<and>
   latched (fold (VisitExpr exF) (preorderWalk exF) (collect preorderWalk exProgram exPrintOpts))
     = latched (collect preorderWalk exProgram exPrintOpts) \<and>
   latched (VisitFunctionDecl preorderWalk exF (collect preorderWalk exProgram exPrintOpts))
     = latched (collect preorderWalk exProgram exPrintOpts)"
proof -
  have l: "latches preorderWalk exProgram exPrintOpts = [(exF, exSumRet, exSum)]"
    by (simp add: example_defs filter_defs run_defs log_defs isIdenticalExpr.simps(4)
          identicalPayload_def)
  have v: "ValidInstanceNum (collect preorderWalk exProgram exPrintOpts) = 3"
    by (simp add: example_defs filter_defs run_defs isIdenticalExpr.simps(4) identicalPayload_def)
  have n: "TransformationCounter (collect preorderWalk exProgram exPrintOpts) = 1"
    by (simp add: collect_options exPrintOpts_def)
  show ?thesis
    using triple_latched_at_most_once
            [of preorderWalk exProgram exPrintOpts exF "(exSumRet, exSum)"
                "collect preorderWalk exProgram exPrintOpts" "preorderWalk exF" exF "[exF]"]
          l v n
    by simp
qed

section \<open>The caches between functions\<close>








section \<open>Operands that are mutated or addressed\<close>

lemma operand_in_LocalUOBOVisitor:
  assumes "N \<in> set (nodes S)" "mutatesOperand N" "getSubExpr N = Some Op"
  shows "ptr (IgnoreParenImpCasts Op) \<in> LocalUOBOVisitor S"
proof -
  have "ptr (IgnoreParenImpCasts Op) \<in> set (VisitUnaryOperator N @ VisitBinaryOperator N)"
    using assms(2,3)
    by (auto simp: mutatesOperand_def VisitUnaryOperator_def VisitBinaryOperator_def
          dyn_cast_UnaryOperator_def dyn_cast_BinaryOperator_def split: Kind.splits)
  with assms(1) show ?thesis
    unfolding LocalUOBOVisitor_def by auto
qed

lemma checkInvalid_rejects:
  "ptr E \<in> LocalUOBOVisitor S \<Longrightarrow> invalidCacheOk D S \<Longrightarrow> \<not> fst (checkInvalid S E D)"
  by (auto simp: checkInvalid_def invalidCacheOk_def Let_def)

lemma isValidExpr_rejects_invalid:
  "ptr E \<in> LocalUOBOVisitor S \<Longrightarrow> invalidCacheOk D S \<Longrightarrow> \<not> fst (isValidExpr S E D)"
  using checkInvalid_rejects[of E S D] by (simp add: isValidExpr_def)

subsection \<open>The cache stays sound along a run\<close>

lemma logFold_invariant_mem:
  assumes "\<And>x s. x \<in> set xs \<Longrightarrow> I s \<Longrightarrow> I (step x s) \<and> list_all Q (lg x s)"
    and "I s"
  shows "list_all Q (logFold lg step xs s) \<and> I (fold step xs s)"
  using assms
proof (induction xs arbitrary: s)
  case Nil
  then show ?case by simp
next
  case (Cons x xs)
  have h: "I (step x s) \<and> list_all Q (lg x s)" using Cons.prems(1)[of x s] Cons.prems(2) by simp
  have "list_all Q (logFold lg step xs (step x s)) \<and> I (fold step xs (step x s))"
    using Cons.IH[of "step x s"] Cons.prems(1) h by simp
  with h show ?case by simp
qed

lemma cacheSoundOn_cong:
  "InvalidExprsInUOBO D' = InvalidExprsInUOBO D \<Longrightarrow> cacheSoundOn Ss D' = cacheSoundOn Ss D"
  by (simp add: cacheSoundOn_def invalidCacheOk_def)

lemma isValidExpr_Invalid:
  "InvalidExprsInUOBO (snd (isValidExpr S E D)) = InvalidExprsInUOBO D \<or>
   InvalidExprsInUOBO (snd (isValidExpr S E D)) = (InvalidExprsInUOBO D)(ptr S \<mapsto> LocalUOBOVisitor S)"
  by (simp add: isValidExpr_def checkInvalid_def Let_def checkUnique_Invalid split: option.splits)

lemma isValidExpr_cacheSound:
  assumes "inj_on ptr Ss" "S \<in> Ss" "cacheSoundOn Ss D"
  shows "cacheSoundOn Ss (snd (isValidExpr S E D))"
proof -
  have "cacheSoundOn Ss (D\<lparr>InvalidExprsInUOBO := (InvalidExprsInUOBO D)(ptr S \<mapsto> LocalUOBOVisitor S)\<rparr>)"
    unfolding cacheSoundOn_def invalidCacheOk_def
  proof
    fix T assume t: "T \<in> Ss"
    show "InvalidExprsInUOBO (D\<lparr>InvalidExprsInUOBO := (InvalidExprsInUOBO D)(ptr S \<mapsto> LocalUOBOVisitor S)\<rparr>) (ptr T) = None \<or>
          InvalidExprsInUOBO (D\<lparr>InvalidExprsInUOBO := (InvalidExprsInUOBO D)(ptr S \<mapsto> LocalUOBOVisitor S)\<rparr>) (ptr T) = Some (LocalUOBOVisitor T)"
    proof (cases "ptr T = ptr S")
      case True
      then have "T = S" using assms(1,2) t by (auto dest: inj_onD)
      then show ?thesis by simp
    next
      case False
      then show ?thesis using assms(3) t by (simp add: cacheSoundOn_def invalidCacheOk_def)
    qed
  qed
  then show ?thesis
    using isValidExpr_Invalid[of S E D] assms(3)
          cacheSoundOn_cong[of "snd (isValidExpr S E D)" D Ss]
          cacheSoundOn_cong[of "snd (isValidExpr S E D)"
             "D\<lparr>InvalidExprsInUOBO := (InvalidExprsInUOBO D)(ptr S \<mapsto> LocalUOBOVisitor S)\<rparr>" Ss]
    by auto
qed

lemma VisitExpr_cacheSound:
  assumes "inj_on ptr Ss" "fst SE \<in> Ss" "cacheSoundOn Ss D"
  shows "cacheSoundOn Ss (VisitExpr F SE D) \<and> list_all avoidsInvalid (acceptedAt F SE D)"
proof -
  have a: "cacheSoundOn Ss (snd (isValidExpr (fst SE) (snd SE) D))"
    using assms by (rule isValidExpr_cacheSound)
  have "InvalidExprsInUOBO (VisitExpr F SE D) = InvalidExprsInUOBO D \<or>
        InvalidExprsInUOBO (VisitExpr F SE D) = InvalidExprsInUOBO (snd (isValidExpr (fst SE) (snd SE) D))"
    by (simp add: VisitExpr_alt Let_def)
  then have s: "cacheSoundOn Ss (VisitExpr F SE D)"
    using a assms(3) cacheSoundOn_cong[of "VisitExpr F SE D" D Ss]
          cacheSoundOn_cong[of "VisitExpr F SE D" "snd (isValidExpr (fst SE) (snd SE) D)" Ss]
    by auto
  have "invalidCacheOk D (fst SE)" using assms(2,3) by (simp add: cacheSoundOn_def)
  then have "accepts SE D \<Longrightarrow> ptr (snd SE) \<notin> LocalUOBOVisitor (fst SE)"
    using isValidExpr_rejects_invalid[of "snd SE" "fst SE" D] by (auto simp: accepts_def)
  then have "list_all avoidsInvalid (acceptedAt F SE D)"
    by (simp add: acceptedAt_def avoidsInvalid_def)
  with s show ?thesis by simp
qed

lemma registerTempVars_Invalid:
  "InvalidExprsInUOBO (registerTempVars FD D) = InvalidExprsInUOBO D"
proof -
  have a: "\<And>VDI D. InvalidExprsInUOBO (addOneTempVar VDI D) = InvalidExprsInUOBO D"
    by (simp add: addOneTempVar_def split: prod.splits option.splits)
  have b: "\<And>DS D. InvalidExprsInUOBO (VisitDeclStmt DS D) = InvalidExprsInUOBO D"
    by (simp add: VisitDeclStmt_def fold_keeps[where f = InvalidExprsInUOBO, OF a] split: Kind.splits)
  have "InvalidExprsInUOBO (noteFunction FD D) = InvalidExprsInUOBO D"
    by (simp add: noteFunction_def)
  then show ?thesis
    by (simp add: registerTempVars_def fold_keeps[where f = InvalidExprsInUOBO, OF b])
qed

lemma VisitFunctionDecl_cacheSound:
  assumes "inj_on ptr Ss" "fst ` set (walk FD) \<subseteq> Ss" "cacheSoundOn Ss D"
  shows "cacheSoundOn Ss (VisitFunctionDecl walk FD D) \<and>
         list_all avoidsInvalid (candidatesOfFunction walk FD D)"
proof (cases "isSkipped FD")
  case True
  then show ?thesis
    using assms(3) cacheSoundOn_cong[of "noteFunction FD D" D Ss]
    by (simp add: VisitFunctionDecl_def candidatesOfFunction_def noteFunction_def)
next
  case False
  have r: "cacheSoundOn Ss (registerTempVars FD D)"
    using assms(3) cacheSoundOn_cong[OF registerTempVars_Invalid, of Ss FD D] by simp
  have "list_all avoidsInvalid (logFold (acceptedAt FD) (VisitExpr FD) (walk FD) (registerTempVars FD D)) \<and>
        cacheSoundOn Ss (fold (VisitExpr FD) (walk FD) (registerTempVars FD D))"
  proof (rule logFold_invariant_mem[where I = "cacheSoundOn Ss"])
    fix x s
    assume "x \<in> set (walk FD)" "cacheSoundOn Ss s"
    then show "cacheSoundOn Ss (VisitExpr FD x s) \<and> list_all avoidsInvalid (acceptedAt FD x s)"
      using VisitExpr_cacheSound[OF assms(1), of x s FD] assms(2) by auto
  qed (rule r)
  moreover have "\<And>D u p. cacheSoundOn Ss (D\<lparr>UniqueExprs := u, ProcessedExprs := p\<rparr>) = cacheSoundOn Ss D"
    by (simp add: cacheSoundOn_def invalidCacheOk_def)
  ultimately show ?thesis
    using False by (simp add: VisitFunctionDecl_def candidatesOfFunction_def)
qed

lemma HandleTopLevelDecl_cacheSound:
  assumes "inj_on ptr Ss" "\<forall>FD\<in>set DG. fst ` set (walk FD) \<subseteq> Ss" "cacheSoundOn Ss D"
  shows "cacheSoundOn Ss (HandleTopLevelDecl cxx walk DG D) \<and>
         list_all avoidsInvalid (candidatesOfGroup cxx walk DG D)"
proof (cases cxx)
  case True
  then show ?thesis
    using assms(3) by (simp add: HandleTopLevelDecl_def candidatesOfGroup_def cacheSoundOn_def invalidCacheOk_def)
next
  case False
  have "list_all avoidsInvalid (logFold (candidatesOfFunction walk) (VisitFunctionDecl walk) DG D) \<and>
        cacheSoundOn Ss (fold (VisitFunctionDecl walk) DG D)"
  proof (rule logFold_invariant_mem[where I = "cacheSoundOn Ss"])
    fix x s
    assume "x \<in> set DG" "cacheSoundOn Ss s"
    then show "cacheSoundOn Ss (VisitFunctionDecl walk x s) \<and>
               list_all avoidsInvalid (candidatesOfFunction walk x s)"
      using VisitFunctionDecl_cacheSound[OF assms(1), of walk x s] assms(2) by auto
  qed (rule assms(3))
  then show ?thesis using False by (simp add: HandleTopLevelDecl_def candidatesOfGroup_def)
qed

lemma candidates_avoid_invalid:
  assumes "inj_on ptr (currentStmts walk P)"
  shows "list_all avoidsInvalid (candidates walk P opts)"
proof -
  let ?D0 = "fold InclusionDirective (inclusionDirectives P) (Initialize (construct opts))"
  let ?Ss = "currentStmts walk P"
  have "InvalidExprsInUOBO ?D0 = InvalidExprsInUOBO (Initialize (construct opts))"
    by (rule fold_keeps) (simp add: InclusionDirective_def split: prod.splits)
  then have s0: "cacheSoundOn ?Ss ?D0"
    by (simp add: cacheSoundOn_def invalidCacheOk_def Initialize_def construct_def)
  have "list_all avoidsInvalid
          (logFold (candidatesOfGroup (isCXXLangOpt P) walk)
             (HandleTopLevelDecl (isCXXLangOpt P) walk) (topLevelDecls P) ?D0) \<and>
        cacheSoundOn ?Ss (fold (HandleTopLevelDecl (isCXXLangOpt P) walk) (topLevelDecls P) ?D0)"
  proof (rule logFold_invariant_mem[where I = "cacheSoundOn ?Ss"])
    fix x s
    assume x: "x \<in> set (topLevelDecls P)" and s: "cacheSoundOn ?Ss s"
    have "\<forall>FD\<in>set x. fst ` set (walk FD) \<subseteq> ?Ss"
      using x by (auto simp: currentStmts_def)
    then show "cacheSoundOn ?Ss (HandleTopLevelDecl (isCXXLangOpt P) walk x s) \<and>
               list_all avoidsInvalid (candidatesOfGroup (isCXXLangOpt P) walk x s)"
      using HandleTopLevelDecl_cacheSound[OF assms _ s] by simp
  qed (rule s0)
  then show ?thesis by (simp add: candidates_def)
qed

text \<open>
  What the filter does reject: in a statement S (the cache of invalid expressions being
  sound for S, as it is when S has no entry yet), the operand of an increment, decrement
  or address-of and the left operand of an assignment, each stripped of its wrappers.
\<close>

lemma stripped_operand_is_rejected:
  "N \<in> set (nodes S) \<Longrightarrow> mutatesOperand N \<Longrightarrow> getSubExpr N = Some Op \<Longrightarrow> invalidCacheOk D S \<Longrightarrow>
   \<not> fst (isValidExpr S (IgnoreParenImpCasts Op) D)"
  using operand_in_LocalUOBOVisitor[of N S Op] isValidExpr_rejects_invalid by blast

text \<open>
  Every node of a statement \<open>x++;\<close> (or \<open>x--\<close>, \<open>++x\<close>, \<open>--x\<close>) is rejected: the
  statement itself as a self-replacement, the name as the operand.
\<close>

lemma increment_statement_has_no_candidate:
  assumes "kind iS = UnaryOperator opc" "isIncrementDecrementOp opc" "kind iX = DeclRefExpr d"
    and "invalidCacheOk D (Stmt iS [Some (Stmt iX [])])"
    and "C \<in> set (nodes (Stmt iS [Some (Stmt iX [])]))"
  shows "\<not> fst (isValidExpr (Stmt iS [Some (Stmt iX [])]) C D)"
proof -
  let ?X = "Stmt iX []"
  let ?S = "Stmt iS [Some ?X]"
  have ne: "opc \<noteq> UO_Extension" using assms(2) by auto
  have "IgnoreParenCasts ?S = ?S"
    using assms(1) ne
    by (intro IgnoreParenCasts_unmoved) (simp_all add: IgnoreParensSingleStep_def IgnoreCastsSingleStep_def)
  then have self: "\<not> fst (isValidExpr ?S ?S D)"
    using assms(1)
    by (simp add: isValidExpr_def isSelfReplacement_def isLoopStmt_def getStmtClass_def)
  have sx: "IgnoreParenImpCasts ?X = ?X"
    using assms(3)
    by (intro IgnoreParenImpCasts_unmoved)
       (simp_all add: IgnoreParensSingleStep_def IgnoreImplicitCastsExtraSingleStep_def)
  have "?S \<in> set (nodes ?S)" by simp
  moreover have "mutatesOperand ?S" using assms(1,2) by (simp add: mutatesOperand_def)
  moreover have "getSubExpr ?S = Some ?X" by (simp add: getSubExpr_def)
  ultimately have "ptr (IgnoreParenImpCasts ?X) \<in> LocalUOBOVisitor ?S"
    by (rule operand_in_LocalUOBOVisitor)
  then have "\<not> fst (isValidExpr ?S ?X D)"
    using assms(4) isValidExpr_rejects_invalid[of ?X ?S D] sx by simp
  with self assms(5) show ?thesis by auto
qed

text \<open>
  In a whole run whose current statements have distinct pointers, whatever the order of
  the walk, no accepted candidate is the stripped operand of such an operator in its
  statement.
\<close>

lemma candidates_are_no_stripped_operands:
  assumes "inj_on ptr (currentStmts walk P)" "(F, S, E) \<in> set (candidates walk P opts)"
    and "N \<in> set (nodes S)" "mutatesOperand N" "getSubExpr N = Some Op"
  shows "ptr (IgnoreParenImpCasts Op) \<noteq> ptr E"
proof -
  have "list_all avoidsInvalid (candidates walk P opts)"
    using assms(1) by (rule candidates_avoid_invalid)
  then have "ptr E \<notin> LocalUOBOVisitor S"
    using assms(2) by (auto simp: list_all_iff avoidsInvalid_def)
  moreover have "ptr (IgnoreParenImpCasts Op) \<in> LocalUOBOVisitor S"
    using assms(3,4,5) by (rule operand_in_LocalUOBOVisitor)
  ultimately show ?thesis by auto
qed

text \<open>
  C7. The collector strips the operand before it marks it, and the filter looks the
  candidate up as it is. In \<open>__extension__ x = a + b;\<close> the left operand of the
  assignment is the node \<open>__extension__ x\<close>, a unary operator of type int and so of a
  candidate class; stripping it gives the name \<open>x\<close>, which is the only node the
  collector marks. The filter rejects the name and accepts the left operand itself: it is
  the first candidate of the function, and a run for instance 1 asks to replace the
  target of the assignment by the temporary.
\<close>

theorem extension_assignment_target_accepted:
  "exExtAssign \<in> set (nodes exExtAssign) \<and> mutatesOperand exExtAssign \<and>
   getSubExpr exExtAssign = Some exExtTarget \<and>
   IgnoreParenImpCasts exExtTarget = exExtName \<and>
   LocalUOBOVisitor exExtAssign = {ptr exExtName} \<and>
   passesTypeAndKind exExtTarget \<and>
   fst (isValidExpr exExtAssign exExtTarget (Initialize (construct exPrintOpts))) \<and>
   \<not> fst (isValidExpr exExtAssign exExtName (Initialize (construct exPrintOpts))) \<and>
   candidates preorderWalk exProgram4 exPrintOpts =
     [(exK, exExtAssign, exExtTarget), (exK, exExtAssign, exSum),
      (exK, exExtAssign, exRef 12 (exVar 101 ''a'')),
      (exK, exExtAssign, exRef 14 (exVar 102 ''b''))] \<and>
   TheStmt (collect preorderWalk exProgram4 exPrintOpts) = Some exExtAssign \<and>
   TheExpr (collect preorderWalk exProgram4 exPrintOpts) = Some exExtTarget \<and>
   (\<exists>D. runPass preorderWalk exQuery False exProgram4 exPrintOpts = Inr D \<and>
        Edits D =
          [InsertTextAtStartOfMainFile (''int printf(const char *format, ...);'' @ [CHR 0x0A]),
           AddStringBeforeStmtAndReplaceExpr exExtAssign
             (''int __cvise_expr_tmp_1 = __extension__ x;'' @ [CHR 0x0A] @
              ''static int __cvise_printed_1 = 0;'' @ [CHR 0x0A] @
              ''if (__cvise_printed_1 == __CVISE_INSTANCE_NUMBER) {'' @ [CHR 0x0A] @
              ''  printf('' @ [CHR 0x22] @ ''cvise_value(%d)'' @ [CHR 0x5C] @ ''n'' @ [CHR 0x22] @
              '', __cvise_expr_tmp_1);'' @ [CHR 0x0A] @
              ''}'' @ [CHR 0x0A] @
              ''++__cvise_printed_1;'')
             exExtTarget ''__cvise_expr_tmp_1'' True])"
proof (intro conjI)
  show "exExtAssign \<in> set (nodes exExtAssign)" by (simp add: example_defs)
  show "mutatesOperand exExtAssign" by (simp add: example_defs mutatesOperand_def)
  show "getSubExpr exExtAssign = Some exExtTarget" by (simp add: example_defs getSubExpr_def)
  show "IgnoreParenImpCasts exExtTarget = exExtName" by (simp add: example_defs filter_defs)
  show "LocalUOBOVisitor exExtAssign = {ptr exExtName}"
    by (simp add: example_defs filter_defs)
  show "passesTypeAndKind exExtTarget"
    by (simp add: example_defs passesTypeAndKind_def getStmtClass_def isCandidateClass_def)
  show "fst (isValidExpr exExtAssign exExtTarget (Initialize (construct exPrintOpts)))"
    by (simp add: example_defs filter_defs run_defs)
  show "\<not> fst (isValidExpr exExtAssign exExtName (Initialize (construct exPrintOpts)))"
    by (simp add: example_defs filter_defs run_defs)
  show "candidates preorderWalk exProgram4 exPrintOpts =
     [(exK, exExtAssign, exExtTarget), (exK, exExtAssign, exSum),
      (exK, exExtAssign, exRef 12 (exVar 101 ''a'')),
      (exK, exExtAssign, exRef 14 (exVar 102 ''b''))]"
    by (simp add: example_defs filter_defs run_defs log_defs isIdenticalExpr.simps(4)
          identicalPayload_def)
  show "TheStmt (collect preorderWalk exProgram4 exPrintOpts) = Some exExtAssign"
    by (simp add: example_defs filter_defs run_defs isIdenticalExpr.simps(4) identicalPayload_def)
  show "TheExpr (collect preorderWalk exProgram4 exPrintOpts) = Some exExtTarget"
    by (simp add: example_defs filter_defs run_defs isIdenticalExpr.simps(4) identicalPayload_def)
  show "\<exists>D. runPass preorderWalk exQuery False exProgram4 exPrintOpts = Inr D \<and>
        Edits D =
          [InsertTextAtStartOfMainFile (''int printf(const char *format, ...);'' @ [CHR 0x0A]),
           AddStringBeforeStmtAndReplaceExpr exExtAssign
             (''int __cvise_expr_tmp_1 = __extension__ x;'' @ [CHR 0x0A] @
              ''static int __cvise_printed_1 = 0;'' @ [CHR 0x0A] @
              ''if (__cvise_printed_1 == __CVISE_INSTANCE_NUMBER) {'' @ [CHR 0x0A] @
              ''  printf('' @ [CHR 0x22] @ ''cvise_value(%d)'' @ [CHR 0x5C] @ ''n'' @ [CHR 0x22] @
              '', __cvise_expr_tmp_1);'' @ [CHR 0x0A] @
              ''}'' @ [CHR 0x0A] @
              ''++__cvise_printed_1;'')
             exExtTarget ''__cvise_expr_tmp_1'' True]"
    by (simp add: example_defs filter_defs run_defs isIdenticalExpr.simps(4) identicalPayload_def)
qed

end
